theory Spec2Isabelle
  imports Complex_Main "HOL-Library.Char_ord" "HOL-Library.List_Lexorder"
begin

section \<open>Tables\<close>

text \<open>
  Every file is read with \<^verbatim>\<open>dtype=str\<close>, so a cell of a data frame is either a string
  or the absent marker NaN. A data frame is its column labels and its rows; a row holds one
  cell per label. Strings are byte strings (UTF-8 for the non-ASCII column names the
  application uses), and the row labels of the frame, which the code never reads
  (\<^verbatim>\<open>iloc\<close>, \<^verbatim>\<open>ignore_index=True\<close>), are the positions in \<open>rows\<close>.
\<close>

type_synonym cell = "string option"

record dataframe =
  columns :: "string list"
  rows :: "cell list list"

definition wf_df :: "dataframe \<Rightarrow> bool" where
  "wf_df df \<longleftrightarrow> list_all (\<lambda>r. length r = length (columns df)) (rows df)"

definition empty_df :: dataframe where
  "empty_df = \<lparr>columns = [], rows = []\<rparr>"

text \<open>The cell of a row under a label: the first column of that name, NaN if there is none.\<close>

fun row_get :: "string list \<Rightarrow> cell list \<Rightarrow> string \<Rightarrow> cell" where
  "row_get (k # ks) (v # vs) c = (if k = c then v else row_get ks vs c)"
| "row_get _ _ _ = None"

text \<open>\<^verbatim>\<open>df.iloc[row_index][col]\<close>, read only for \<open>row_index < len(df)\<close> and a label of the frame.\<close>

definition cell_at :: "dataframe \<Rightarrow> nat \<Rightarrow> string \<Rightarrow> cell" where
  "cell_at df row_index col = row_get (columns df) (rows df ! row_index) col"

section \<open>Strings and numbers of the host language\<close>

text \<open>
  \<^verbatim>\<open>str.strip()\<close> removes the characters Python counts as whitespace; in the ASCII range
  these are 9 to 13 and 28 to 32. \<^verbatim>\<open>str.lower()\<close> is modelled on the ASCII letters, which
  is all the comparison with \<^verbatim>\<open>"nan"\<close> can see.
\<close>

definition is_space :: "char \<Rightarrow> bool" where
  "is_space c \<longleftrightarrow> (let n = (of_char c :: nat) in (9 \<le> n \<and> n \<le> 13) \<or> (28 \<le> n \<and> n \<le> 32))"

definition strip :: "string \<Rightarrow> string" where
  "strip s = rev (dropWhile is_space (rev (dropWhile is_space s)))"

definition lower_char :: "char \<Rightarrow> char" where
  "lower_char c = (let n = (of_char c :: nat) in if 65 \<le> n \<and> n \<le> 90 then char_of (n + 32) else c)"

definition str_lower :: "string \<Rightarrow> string" where
  "str_lower s = map lower_char s"

definition endswith :: "string \<Rightarrow> string \<Rightarrow> bool" where
  "endswith s suffix \<longleftrightarrow> length suffix \<le> length s \<and> drop (length s - length suffix) s = suffix"

text \<open>\<^verbatim>\<open>s.rstrip("%")\<close>: every trailing percent sign goes.\<close>

definition rstrip_percent :: "string \<Rightarrow> string" where
  "rstrip_percent s = rev (dropWhile (\<lambda>c. c = CHR ''%'') (rev s))"

text \<open>\<^verbatim>\<open>sep.join(xs)\<close>.\<close>

fun join :: "string \<Rightarrow> string list \<Rightarrow> string" where
  "join sep [] = []"
| "join sep [x] = x"
| "join sep (x # y # ys) = x @ sep @ join sep (y # ys)"

text \<open>
  A Python float is a finite number, an infinity or NaN. Finite values are kept as exact
  rationals: comparisons of floats are exact, so the order below is the one the code sees;
  the rounding of arithmetic results is not modelled. Comparisons with NaN are false.
\<close>

datatype pyfloat = Fin rat | PInf | NInf | NaN

fun pf_lt :: "pyfloat \<Rightarrow> pyfloat \<Rightarrow> bool" where
  "pf_lt (Fin a) (Fin b) = (a < b)"
| "pf_lt (Fin a) PInf = True"
| "pf_lt NInf (Fin b) = True"
| "pf_lt NInf PInf = True"
| "pf_lt _ _ = False"

fun pf_eq :: "pyfloat \<Rightarrow> pyfloat \<Rightarrow> bool" where
  "pf_eq (Fin a) (Fin b) = (a = b)"
| "pf_eq PInf PInf = True"
| "pf_eq NInf NInf = True"
| "pf_eq _ _ = False"

definition pf_gt :: "pyfloat \<Rightarrow> pyfloat \<Rightarrow> bool" where
  "pf_gt a b = pf_lt b a"

definition pf_le :: "pyfloat \<Rightarrow> pyfloat \<Rightarrow> bool" where
  "pf_le a b \<longleftrightarrow> pf_lt a b \<or> pf_eq a b"

definition pf_ge :: "pyfloat \<Rightarrow> pyfloat \<Rightarrow> bool" where
  "pf_ge a b = pf_le b a"

fun pf_neg :: "pyfloat \<Rightarrow> pyfloat" where
  "pf_neg (Fin a) = Fin (- a)"
| "pf_neg PInf = NInf"
| "pf_neg NInf = PInf"
| "pf_neg NaN = NaN"

fun pf_add :: "pyfloat \<Rightarrow> pyfloat \<Rightarrow> pyfloat" where
  "pf_add (Fin a) (Fin b) = Fin (a + b)"
| "pf_add NaN _ = NaN"
| "pf_add _ NaN = NaN"
| "pf_add PInf NInf = NaN"
| "pf_add NInf PInf = NaN"
| "pf_add PInf _ = PInf"
| "pf_add NInf _ = NInf"
| "pf_add (Fin a) b = b"

definition pf_sub :: "pyfloat \<Rightarrow> pyfloat \<Rightarrow> pyfloat" where
  "pf_sub a b = pf_add a (pf_neg b)"

text \<open>The product of a finite factor \<open>k\<close> with a float.\<close>

fun pf_scale :: "rat \<Rightarrow> pyfloat \<Rightarrow> pyfloat" where
  "pf_scale k (Fin a) = Fin (k * a)"
| "pf_scale k NaN = NaN"
| "pf_scale k PInf = (if k = 0 then NaN else if 0 < k then PInf else NInf)"
| "pf_scale k NInf = (if k = 0 then NaN else if 0 < k then NInf else PInf)"

text \<open>
  Three functions of the libraries the code calls are parameters of the model: the builtin
  \<^verbatim>\<open>float(s)\<close> (\<open>None\<close> where it raises ValueError), \<^verbatim>\<open>re.compile(p)\<close> with the
  \<^verbatim>\<open>search\<close> of the compiled pattern (\<open>None\<close> where it raises \<^verbatim>\<open>re.error\<close>), and
  \<^verbatim>\<open>Series.quantile(q)\<close> on a series of floats without NaN. Every theorem below holds
  for all three, whatever they compute.
\<close>

record pylib =
  py_float :: "string \<Rightarrow> pyfloat option"
  re_compile :: "string \<Rightarrow> (string \<Rightarrow> bool) option"
  quantile :: "pyfloat list \<Rightarrow> rat \<Rightarrow> pyfloat"

section \<open>The reconciliation report\<close>

datatype status = Ok | Read_error | Fatal_mismatch

text \<open>
  The optional texts of an entry: \<^verbatim>\<open>entry["error"] = str(e)\<close> of a file that could not be
  read, and the fixed \<^verbatim>\<open>entry["message"]\<close> of a file that shares no column with the baseline.
\<close>

datatype entry_note = No_note | Error_text string | Skipped_no_common_column

record table_entry =
  file_name :: string
  row_count :: nat
  missing_columns :: "string list"
  extra_columns :: "string list"
  status :: status
  match_rate :: "rat option"
  entry_note :: entry_note

datatype top_error = File_paths_empty | Baseline_duplicate_columns

datatype warning = Keys_unmatched

text \<open>
  The report is a dictionary in the code. The report of an empty file list has the keys
  \<^verbatim>\<open>error\<close> and \<^verbatim>\<open>merged_row_count\<close> only; a key that is not there reads as the
  empty list, as \<^verbatim>\<open>schema_report.get("tables") or []\<close> does.
\<close>

record schema_report =
  reference_file :: string
  reference_columns :: "string list"
  tables :: "table_entry list"
  merged_row_count :: nat
  fatal_mismatch_count :: nat
  merge_warning :: "warning option"
  error :: "top_error option"

section \<open>The health scanner\<close>

subsection \<open>Helpers of the scanner\<close>

text \<open>\<^verbatim>\<open>_row_index_to_file_index\<close>: the loop over \<^verbatim>\<open>enumerate(tables)\<close> with its running sum.\<close>

fun file_index_from :: "nat \<Rightarrow> nat \<Rightarrow> nat \<Rightarrow> table_entry list \<Rightarrow> nat" where
  "file_index_from row_index i cum [] = 0"
| "file_index_from row_index i cum (t # ts) =
     (if row_index < cum + row_count t then i
      else file_index_from row_index (Suc i) (cum + row_count t) ts)"

definition row_index_to_file_index :: "nat \<Rightarrow> schema_report \<Rightarrow> nat" where
  "row_index_to_file_index row_index rep = file_index_from row_index 0 0 (tables rep)"

text \<open>\<^verbatim>\<open>_get_missing_columns_by_file\<close>: the dictionary from file index to the set of missing columns.\<close>

definition get_missing_columns_by_file :: "schema_report \<Rightarrow> nat \<rightharpoonup> string set" where
  "get_missing_columns_by_file rep =
     (\<lambda>i. if i < length (tables rep) then Some (set (missing_columns (tables rep ! i))) else None)"

text \<open>\<^verbatim>\<open>missing_by_file.get(file_idx, set())\<close>.\<close>

definition missing_cols_of :: "schema_report \<Rightarrow> nat \<Rightarrow> string set" where
  "missing_cols_of rep file_idx =
     (case get_missing_columns_by_file rep file_idx of None \<Rightarrow> {} | Some s \<Rightarrow> s)"

definition is_empty :: "cell \<Rightarrow> bool" where
  "is_empty v = (case v of None \<Rightarrow> True
                 | Some s \<Rightarrow> strip s = [] \<or> str_lower (strip s) = ''nan'')"

definition is_numeric_value :: "pylib \<Rightarrow> cell \<Rightarrow> bool" where
  "is_numeric_value L v =
     (case v of None \<Rightarrow> True
      | Some s0 \<Rightarrow>
          if strip s0 = [] then True
          else let s = strip s0 in
            if py_float L s \<noteq> None then True
            else if endswith s ''%'' \<and> py_float L (strip (rstrip_percent s)) \<noteq> None then True
            else False)"

definition to_float :: "pylib \<Rightarrow> cell \<Rightarrow> pyfloat option" where
  "to_float L v =
     (case v of None \<Rightarrow> None
      | Some s0 \<Rightarrow>
          if strip s0 = [] then None
          else let s = strip s0 in
            (case py_float L s of
               Some f \<Rightarrow> Some f
             | None \<Rightarrow> if endswith s ''%'' then py_float L (strip (rstrip_percent s)) else None))"

text \<open>
  \<^verbatim>\<open>_to_float\<close> applied to a value that is already a float or \<open>None\<close>, as
  \<^verbatim>\<open>_outlier_bounds_iqr\<close> does to the series \<^verbatim>\<open>scan\<close> hands it: NaN is \<^verbatim>\<open>pd.isna\<close>,
  and any other float is read back from its own \<^verbatim>\<open>str\<close>.
\<close>

definition to_float_of_float :: "pyfloat option \<Rightarrow> pyfloat option" where
  "to_float_of_float v = (case v of None \<Rightarrow> None | Some NaN \<Rightarrow> None | Some f \<Rightarrow> Some f)"

text \<open>\<^verbatim>\<open>_outlier_bounds_iqr\<close>, with \<^verbatim>\<open>dropna\<close> as the filter of the parsed values.\<close>

definition numeric_values :: "pyfloat option list \<Rightarrow> pyfloat list" where
  "numeric_values series = List.map_filter to_float_of_float series"

definition outlier_bounds_iqr :: "pylib \<Rightarrow> pyfloat option list \<Rightarrow> rat \<Rightarrow> pyfloat option \<times> pyfloat option" where
  "outlier_bounds_iqr L series k =
     (let numeric = numeric_values series in
      if length numeric < 4 then (None, None)
      else
        let q1 = quantile L numeric (1 / 4);
            q3 = quantile L numeric (3 / 4);
            iqr = pf_sub q3 q1
        in if pf_eq iqr (Fin 0) then (Some q1, Some q3)
           else (Some (pf_sub q1 (pf_scale k iqr)), Some (pf_add q3 (pf_scale k iqr))))"

definition eval_constraint :: "pyfloat option \<Rightarrow> string \<Rightarrow> pyfloat option \<Rightarrow> bool" where
  "eval_constraint left_val op right_val =
     (case (left_val, right_val) of
        (Some l, Some r) \<Rightarrow>
          if op = ''>'' then pf_gt l r
          else if op = ''<'' then pf_lt l r
          else if op = ''>='' then pf_ge l r
          else if op = ''<='' then pf_le l r
          else if op = ''=='' then pf_eq l r
          else True
      | _ \<Rightarrow> True)"

subsection \<open>Defect records and the manifest\<close>

datatype error_type =
  Null_structural | Null_business | Type_inconsistent | Duplicate | Outlier
  | Pattern_mismatch | Constraint_violation

datatype severity = Structural | Business

text \<open>
  The message of a record is one of seven fixed texts with the values the code formats
  into it; the text itself plays no part in the scan, so a message is kept as its template
  and arguments: the cell (cut to 50 characters by the template) of a type defect, the key
  columns of a duplicate, the cell of an outlier, the pattern (cut to 30 characters) of a
  mismatch, and left column, operator and right column of a constraint.
\<close>

datatype message =
  Msg_missing_in_source
  | Msg_empty_value
  | Msg_expected_number string
  | Msg_duplicate_key "string list"
  | Msg_out_of_range string
  | Msg_bad_format string
  | Msg_constraint string string string

record defect =
  row_index :: nat
  col_name :: string
  error_type :: error_type
  severity :: severity
  message :: message

record counts =
  structural_nulls :: nat
  business_nulls :: nat
  type_errors :: nat
  duplicates :: nat
  outliers :: nat
  cnt_pattern_mismatch :: nat
  cnt_constraint_violation :: nat
  total :: nat

text \<open>
  The summary is either the fixed text that nothing was found, or the text that opens the
  list of findings followed by the comma-joined parts; a part is a count and the fixed
  phrase of its kind, kept as the pair of the count and the kind.
\<close>

datatype summary = Nothing_found | Found "(nat \<times> error_type) list"

record health_manifest =
  errors :: "defect list"
  summary :: summary
  counts :: counts

subsection \<open>The scanner and its configuration\<close>

record constraint =
  left :: "string option"
  op :: "string option"
  right :: "string option"

record scanner =
  composite_key_columns :: "string list"
  numeric_columns :: "string list"
  outlier_columns :: "string list"
  pattern_columns :: "(string \<times> string) list"
  constraints :: "constraint list"

text \<open>The default column names, in UTF-8: name and class for the key, score for the numbers.\<close>

definition default_key_columns :: "string list" where
  "default_key_columns =
     [[CHR 0xE5, CHR 0xA7, CHR 0x93, CHR 0xE5, CHR 0x90, CHR 0x8D],
      [CHR 0xE7, CHR 0x8F, CHR 0xAD, CHR 0xE7, CHR 0xBA, CHR 0xA7]]"

definition default_numeric_columns :: "string list" where
  "default_numeric_columns = [[CHR 0xE5, CHR 0x88, CHR 0x86, CHR 0xE6, CHR 0x95, CHR 0xB0]]"

text \<open>
  \<^verbatim>\<open>DataHealthScanner.__init__\<close>: an argument that is \<open>None\<close> or empty takes its default, so
  the empty list stands for both.
\<close>

definition new_scanner ::
  "string list \<Rightarrow> string list \<Rightarrow> string list \<Rightarrow> (string \<times> string) list \<Rightarrow> constraint list \<Rightarrow> scanner" where
  "new_scanner key_columns numeric outl patterns cons =
     \<lparr>composite_key_columns = (if key_columns = [] then default_key_columns else key_columns),
      numeric_columns = (if numeric = [] then default_numeric_columns else numeric),
      outlier_columns = outl,
      pattern_columns = patterns,
      constraints = cons\<rparr>"

subsection \<open>The passes of the scan\<close>

text \<open>
  Each pass appends to the list \<^verbatim>\<open>errors\<close>; here it yields the records it appends, in the
  order of the loops. The loop variable \<^verbatim>\<open>row_index\<close> is written \<open>ri\<close>.

  Pass 1: one record for every empty cell, attributed through the report.
\<close>

definition null_defect :: "nat \<Rightarrow> string \<Rightarrow> bool \<Rightarrow> defect" where
  "null_defect ri col in_missing =
     (if in_missing
      then \<lparr>row_index = ri, col_name = col, error_type = Null_structural,
            severity = Structural, message = Msg_missing_in_source\<rparr>
      else \<lparr>row_index = ri, col_name = col, error_type = Null_business,
            severity = Business, message = Msg_empty_value\<rparr>)"

definition null_errors_row :: "dataframe \<Rightarrow> schema_report \<Rightarrow> nat \<Rightarrow> defect list" where
  "null_errors_row df rep ri =
     (let file_idx = row_index_to_file_index ri rep;
          missing_cols = missing_cols_of rep file_idx
      in concat (map (\<lambda>col. if \<not> is_empty (cell_at df ri col) then []
                            else [null_defect ri col (col \<in> missing_cols)])
                     (columns df)))"

definition null_errors :: "dataframe \<Rightarrow> schema_report \<Rightarrow> defect list" where
  "null_errors df rep = concat (map (null_errors_row df rep) [0..<length (rows df)])"

text \<open>Pass 2: cells of the numeric columns that are neither empty nor numbers.\<close>

definition type_errors_col :: "pylib \<Rightarrow> dataframe \<Rightarrow> string \<Rightarrow> defect list" where
  "type_errors_col L df col =
     (if col \<notin> set (columns df) then []
      else concat (map (\<lambda>ri.
             (case cell_at df ri col of
                None \<Rightarrow> []
              | Some val \<Rightarrow>
                  if is_empty (Some val) then []
                  else if \<not> is_numeric_value L (Some val)
                  then [\<lparr>row_index = ri, col_name = col, error_type = Type_inconsistent,
                         severity = Business, message = Msg_expected_number val\<rparr>]
                  else []))
           [0..<length (rows df)]))"

definition type_errors_of :: "pylib \<Rightarrow> scanner \<Rightarrow> dataframe \<Rightarrow> defect list" where
  "type_errors_of L sc df = concat (map (type_errors_col L df) (numeric_columns sc))"

text \<open>
  Pass 3: the key of a row and the loop over the rows with its set of keys seen so far;
  the loop yields the indices of the rows it flags.
\<close>

definition row_key :: "dataframe \<Rightarrow> string list \<Rightarrow> nat \<Rightarrow> string list" where
  "row_key df key_cols ri =
     map (\<lambda>c. case cell_at df ri c of None \<Rightarrow> [] | Some s \<Rightarrow> s) key_cols"

fun duplicate_rows :: "(nat \<Rightarrow> string list) \<Rightarrow> nat list \<Rightarrow> string list set \<Rightarrow> nat list" where
  "duplicate_rows key_of [] seen = []"
| "duplicate_rows key_of (ri # rest) seen =
     (if key_of ri \<in> seen then ri # duplicate_rows key_of rest seen
      else duplicate_rows key_of rest (insert (key_of ri) seen))"

definition present_key_columns :: "scanner \<Rightarrow> dataframe \<Rightarrow> string list" where
  "present_key_columns sc df = filter (\<lambda>c. c \<in> set (columns df)) (composite_key_columns sc)"

definition duplicate_errors :: "scanner \<Rightarrow> dataframe \<Rightarrow> defect list" where
  "duplicate_errors sc df =
     (let key_cols = present_key_columns sc df
      in if key_cols = [] then []
         else map (\<lambda>ri.
                \<lparr>row_index = ri, col_name = join '','' key_cols, error_type = Duplicate,
                 severity = Business, message = Msg_duplicate_key key_cols\<rparr>)
              (duplicate_rows (row_key df key_cols) [0..<length (rows df)] {}))"

text \<open>
  Pass 4. The columns are those of \<^verbatim>\<open>set(numeric_columns) | set(outlier_columns)\<close>, each
  once; the order in which Python walks a set is not fixed, the model takes the order of
  first mention.
\<close>

definition all_outlier_cols :: "scanner \<Rightarrow> string list" where
  "all_outlier_cols sc = remdups (numeric_columns sc @ outlier_columns sc)"

definition column_floats :: "pylib \<Rightarrow> dataframe \<Rightarrow> string \<Rightarrow> pyfloat option list" where
  "column_floats L df col = map (\<lambda>ri. to_float L (cell_at df ri col)) [0..<length (rows df)]"

definition outside_bounds :: "pyfloat option \<Rightarrow> pyfloat option \<Rightarrow> pyfloat \<Rightarrow> bool" where
  "outside_bounds lower upper f \<longleftrightarrow>
     (case lower of None \<Rightarrow> False | Some lo \<Rightarrow> pf_lt f lo) \<or>
     (case upper of None \<Rightarrow> False | Some up \<Rightarrow> pf_gt f up)"

text \<open>The body of the loop over the rows of one column, for the bounds of that column.\<close>

definition outlier_errors_row ::
  "pylib \<Rightarrow> dataframe \<Rightarrow> string \<Rightarrow> pyfloat option \<Rightarrow> pyfloat option \<Rightarrow> nat \<Rightarrow> defect list" where
  "outlier_errors_row L df col lower upper ri =
     (case cell_at df ri col of
        None \<Rightarrow> []
      | Some val \<Rightarrow>
          if is_empty (Some val) then []
          else (case to_float L (Some val) of
                  None \<Rightarrow> []
                | Some f \<Rightarrow>
                    if outside_bounds lower upper f
                    then [\<lparr>row_index = ri, col_name = col, error_type = Outlier,
                           severity = Business, message = Msg_out_of_range val\<rparr>]
                    else []))"

definition outlier_errors_col :: "pylib \<Rightarrow> dataframe \<Rightarrow> string \<Rightarrow> defect list" where
  "outlier_errors_col L df col =
     (if col \<notin> set (columns df) then []
      else
        let (lower, upper) = outlier_bounds_iqr L (column_floats L df col) (3 / 2)
        in if lower = None \<and> upper = None then []
           else concat (map (outlier_errors_row L df col lower upper) [0..<length (rows df)]))"

definition outlier_errors :: "pylib \<Rightarrow> scanner \<Rightarrow> dataframe \<Rightarrow> defect list" where
  "outlier_errors L sc df = concat (map (outlier_errors_col L df) (all_outlier_cols sc))"

text \<open>Pass 5: non-empty cells whose stripped text the compiled pattern does not find.\<close>

definition pattern_errors_col :: "pylib \<Rightarrow> dataframe \<Rightarrow> string \<times> string \<Rightarrow> defect list" where
  "pattern_errors_col L df cp =
     (let col = fst cp; pattern_str = snd cp in
      if col \<notin> set (columns df) then []
      else (case re_compile L pattern_str of
              None \<Rightarrow> []
            | Some pat_search \<Rightarrow>
                concat (map (\<lambda>ri.
                  (case cell_at df ri col of
                     None \<Rightarrow> []
                   | Some val \<Rightarrow>
                       if is_empty (Some val) then []
                       else if \<not> pat_search (strip val)
                       then [\<lparr>row_index = ri, col_name = col, error_type = Pattern_mismatch,
                              severity = Business, message = Msg_bad_format pattern_str\<rparr>]
                       else []))
                [0..<length (rows df)])))"

definition pattern_errors :: "pylib \<Rightarrow> scanner \<Rightarrow> dataframe \<Rightarrow> defect list" where
  "pattern_errors L sc df = concat (map (pattern_errors_col L df) (pattern_columns sc))"

text \<open>
  Pass 6. A constraint whose left or right column is absent, empty or not a label of the
  frame is skipped; a missing operator reads as \<^verbatim>\<open>">"\<close>.
\<close>

definition constraint_defect :: "nat \<Rightarrow> string \<Rightarrow> string \<Rightarrow> string \<Rightarrow> defect" where
  "constraint_defect ri left_col op_str right_col =
     \<lparr>row_index = ri, col_name = left_col @ '' vs '' @ right_col,
      error_type = Constraint_violation, severity = Business,
      message = Msg_constraint left_col op_str right_col\<rparr>"

definition constraint_errors_one :: "pylib \<Rightarrow> dataframe \<Rightarrow> constraint \<Rightarrow> defect list" where
  "constraint_errors_one L df c =
     (let op_str = (case op c of None \<Rightarrow> ''>'' | Some s \<Rightarrow> s) in
      case (left c, right c) of
        (Some left_col, Some right_col) \<Rightarrow>
          if left_col = [] \<or> right_col = [] \<or> left_col \<notin> set (columns df) \<or> right_col \<notin> set (columns df)
          then []
          else concat (map (\<lambda>ri.
                 let left_val = to_float L (cell_at df ri left_col);
                     right_val = to_float L (cell_at df ri right_col)
                 in if \<not> eval_constraint left_val op_str right_val
                    then [constraint_defect ri left_col op_str right_col]
                    else [])
               [0..<length (rows df)])
      | _ \<Rightarrow> [])"

definition constraint_errors :: "pylib \<Rightarrow> scanner \<Rightarrow> dataframe \<Rightarrow> defect list" where
  "constraint_errors L sc df = concat (map (constraint_errors_one L df) (constraints sc))"

text \<open>Pass 7: the tallies and the summary, built part by part in the fixed order.\<close>

definition count_where :: "(defect \<Rightarrow> bool) \<Rightarrow> defect list \<Rightarrow> nat" where
  "count_where p es = length (filter p es)"

definition summary_part :: "nat \<Rightarrow> error_type \<Rightarrow> (nat \<times> error_type) list" where
  "summary_part n kind = (if 0 < n then [(n, kind)] else [])"

definition summarise :: "defect list \<Rightarrow> health_manifest" where
  "summarise es =
     (let n_structural = count_where (\<lambda>e. severity e = Structural) es;
          n_business_null = count_where (\<lambda>e. error_type e = Null_business) es;
          n_type = count_where (\<lambda>e. error_type e = Type_inconsistent) es;
          n_dup = count_where (\<lambda>e. error_type e = Duplicate) es;
          n_outlier = count_where (\<lambda>e. error_type e = Outlier) es;
          n_pattern = count_where (\<lambda>e. error_type e = Pattern_mismatch) es;
          n_constraint = count_where (\<lambda>e. error_type e = Constraint_violation) es;
          parts = summary_part n_structural Null_structural
                  @ summary_part n_business_null Null_business
                  @ summary_part n_type Type_inconsistent
                  @ summary_part n_dup Duplicate
                  @ summary_part n_outlier Outlier
                  @ summary_part n_pattern Pattern_mismatch
                  @ summary_part n_constraint Constraint_violation
      in \<lparr>errors = es,
          summary = (if parts \<noteq> [] then Found parts else Nothing_found),
          counts = \<lparr>structural_nulls = n_structural, business_nulls = n_business_null,
                    type_errors = n_type, duplicates = n_dup, outliers = n_outlier,
                    cnt_pattern_mismatch = n_pattern, cnt_constraint_violation = n_constraint,
                    total = length es\<rparr>\<rparr>)"

definition scan :: "pylib \<Rightarrow> scanner \<Rightarrow> dataframe \<Rightarrow> schema_report \<Rightarrow> health_manifest" where
  "scan L sc df rep =
     summarise (null_errors df rep @ type_errors_of L sc df @ duplicate_errors sc df
                @ outlier_errors L sc df @ pattern_errors L sc df @ constraint_errors L sc df)"

section \<open>The merge engine\<close>

subsection \<open>Operations on data frames\<close>

text \<open>
  What the code can raise: \<^verbatim>\<open>set(None)\<close> is a TypeError; pandas answers a
  \<^verbatim>\<open>reindex\<close> of a frame with duplicate labels by a ValueError, the \<^verbatim>\<open>.str\<close> of a
  duplicated column (a frame, not a series) by an AttributeError, and the \<^verbatim>\<open>concat\<close> of
  frames with different labels, one of them with duplicates, by an InvalidIndexError.
\<close>

datatype py_error = TypeError | ValueError | AttributeError | InvalidIndexError

text \<open>
  \<^verbatim>\<open>df.reindex(columns=cols)\<close>: the frame with exactly the labels \<open>cols\<close>, every cell
  looked up under its label and NaN where the frame has no such column. A frame with
  duplicate labels can only be reindexed to its own labels.
\<close>

definition reindex :: "dataframe \<Rightarrow> string list \<Rightarrow> py_error + dataframe" where
  "reindex df cols =
     (if \<not> distinct (columns df)
      then (if columns df = cols then Inr df else Inl ValueError)
      else Inr \<lparr>columns = cols, rows = map (\<lambda>r. map (row_get (columns df) r) cols) (rows df)\<rparr>)"

text \<open>\<^verbatim>\<open>df[cols]\<close> for labels of the frame.\<close>

definition select_columns :: "dataframe \<Rightarrow> string list \<Rightarrow> dataframe" where
  "select_columns df cols =
     \<lparr>columns = cols, rows = map (\<lambda>r. map (row_get (columns df) r) cols) (rows df)\<rparr>"

text \<open>\<^verbatim>\<open>df.drop(columns=names, errors="ignore")\<close>.\<close>

definition drop_columns :: "dataframe \<Rightarrow> string list \<Rightarrow> dataframe" where
  "drop_columns df names =
     \<lparr>columns = filter (\<lambda>c. c \<notin> set names) (columns df),
      rows = map (\<lambda>r. map snd (filter (\<lambda>cv. fst cv \<notin> set names) (zip (columns df) r))) (rows df)\<rparr>"

text \<open>The key of a row on the columns \<open>on\<close>, and the keys of all rows of a frame.\<close>

definition key_of :: "string list \<Rightarrow> string list \<Rightarrow> cell list \<Rightarrow> cell list" where
  "key_of cols on r = map (row_get cols r) on"

definition key_tuples :: "dataframe \<Rightarrow> string list \<Rightarrow> cell list list" where
  "key_tuples df on = map (key_of (columns df) on) (rows df)"

text \<open>\<^verbatim>\<open>df.drop_duplicates(subset=on, keep="first")\<close>: the loop over the rows with the keys seen.\<close>

fun keep_first :: "(cell list \<Rightarrow> cell list) \<Rightarrow> cell list list \<Rightarrow> cell list set \<Rightarrow> cell list list" where
  "keep_first key [] seen = []"
| "keep_first key (r # rs) seen =
     (if key r \<in> seen then keep_first key rs seen
      else r # keep_first key rs (insert (key r) seen))"

definition drop_duplicates :: "dataframe \<Rightarrow> string list \<Rightarrow> dataframe" where
  "drop_duplicates df on = df\<lparr>rows := keep_first (key_of (columns df) on) (rows df) {}\<rparr>"

text \<open>
  \<^verbatim>\<open>left.merge(right, on=on, how="left", suffixes=("", "_dup"))\<close> on frames with unique
  labels: the rows of \<open>left\<close> in their order, each once for every row of \<open>right\<close> with the
  same key and once, filled with NaN, if there is none; the columns of \<open>right\<close> outside the
  key follow those of \<open>left\<close>, renamed with the suffix where \<open>left\<close> has the name already.
  Keys match as values, NaN with NaN. The checks pandas makes on the types of the key
  columns are outside the model.
\<close>

definition left_merge :: "dataframe \<Rightarrow> dataframe \<Rightarrow> string list \<Rightarrow> dataframe" where
  "left_merge left_df right_df on =
     (let right_cols = filter (\<lambda>c. c \<notin> set on) (columns right_df);
          new_names = map (\<lambda>c. if c \<in> set (columns left_df) then c @ ''_dup'' else c) right_cols
      in \<lparr>columns = columns left_df @ new_names,
          rows = concat (map (\<lambda>l.
                   (case filter (\<lambda>r. key_of (columns right_df) on r = key_of (columns left_df) on l)
                                (rows right_df) of
                      [] \<Rightarrow> [l @ map (\<lambda>c. None) right_cols]
                    | m # ms \<Rightarrow> map (\<lambda>r. l @ map (row_get (columns right_df) r) right_cols) (m # ms)))
                 (rows left_df))\<rparr>)"

text \<open>
  \<^verbatim>\<open>pd.concat(dfs, axis=0, ignore_index=True)\<close> of a non-empty list: frames with the same
  labels are stacked; otherwise the labels are the union in the order of first appearance
  and every frame is aligned to them.
\<close>

definition union_columns :: "dataframe list \<Rightarrow> string list" where
  "union_columns dfs = rev (remdups (rev (concat (map columns dfs))))"

definition concat_frames :: "dataframe list \<Rightarrow> py_error + dataframe" where
  "concat_frames dfs =
     (if list_all (\<lambda>d. columns d = columns (hd dfs)) dfs
      then Inr \<lparr>columns = columns (hd dfs), rows = concat (map rows dfs)\<rparr>
      else if \<not> list_all (\<lambda>d. distinct (columns d)) dfs then Inl InvalidIndexError
      else Inr \<lparr>columns = union_columns dfs,
                rows = concat (map (\<lambda>d. map (\<lambda>r. map (row_get (columns d) r) (union_columns dfs)) (rows d)) dfs)\<rparr>)"

subsection \<open>Reading and key columns\<close>

text \<open>
  \<^verbatim>\<open>_read_table\<close> is the table reader, a collaborator outside the engine: a parameter
  that gives for a path either the text of the exception it raises or the frame it reads.
  \<^verbatim>\<open>Path(fp).name\<close> is the part of the path after the last separator.
\<close>

type_synonym reader = "string \<Rightarrow> string + dataframe"

definition path_name :: "string \<Rightarrow> string" where
  "path_name fp = rev (takeWhile (\<lambda>c. c \<noteq> CHR ''/'') (rev fp))"

text \<open>\<^verbatim>\<open>astype(str).str.strip()\<close> on one cell: NaN becomes the text \<^verbatim>\<open>nan\<close>.\<close>

definition strip_cell :: "cell \<Rightarrow> cell" where
  "strip_cell v = Some (strip (case v of None \<Rightarrow> ''nan'' | Some s \<Rightarrow> s))"

fun strip_primary_key_columns :: "dataframe \<Rightarrow> string list \<Rightarrow> py_error + dataframe" where
  "strip_primary_key_columns out [] = Inr out"
| "strip_primary_key_columns out (col # key_columns) =
     (if col \<notin> set (columns out) then strip_primary_key_columns out key_columns
      else if count_list (columns out) col \<noteq> 1 then Inl AttributeError
      else strip_primary_key_columns
             (out\<lparr>rows := map (\<lambda>r. map (\<lambda>cv. if fst cv = col then strip_cell (snd cv) else snd cv)
                                        (zip (columns out) r)) (rows out)\<rparr>)
             key_columns)"

subsection \<open>The baseline of an incremental merge\<close>

text \<open>
  The block under \<^verbatim>\<open>if template_incremental\<close>: the columns of every readable file, the
  baseline given or else the columns of the first file, and the remaining columns sorted.
\<close>

definition all_columns :: "reader \<Rightarrow> string list \<Rightarrow> string list" where
  "all_columns rd file_paths =
     concat (map (\<lambda>fp. case rd fp of Inl e \<Rightarrow> [] | Inr df \<Rightarrow> columns df) file_paths)"

definition incremental_columns :: "reader \<Rightarrow> string list \<Rightarrow> string list option \<Rightarrow> string list" where
  "incremental_columns rd file_paths cols_to_use =
     (let all_cols = all_columns rd file_paths;
          given = (case cols_to_use of None \<Rightarrow> [] | Some cs \<Rightarrow> cs);
          baseline_list =
            (if given = [] then
               (case file_paths of
                  [] \<Rightarrow> []
                | fp # fps \<Rightarrow> (case rd fp of Inl e \<Rightarrow> [] | Inr first_df \<Rightarrow> columns first_df))
             else given);
          extra_sorted = sort (remdups (filter (\<lambda>c. c \<notin> set baseline_list) all_cols))
      in baseline_list @ extra_sorted)"

subsection \<open>The loop over the files\<close>

text \<open>
  The variables the loop changes: the entries of the report, the frames kept, the count of
  fatal mismatches, \<^verbatim>\<open>cols_to_use\<close> (\<open>None\<close> until there is a baseline) and the
  \<^verbatim>\<open>reference_columns\<close> of the report.
\<close>

record merge_state =
  st_tables :: "table_entry list"
  merged_dfs :: "dataframe list"
  fatal_count :: nat
  cols_to_use :: "string list option"
  st_reference_columns :: "string list"

text \<open>
  One pass of the loop body either raises, or returns from the whole function (the first
  file has duplicate labels; the labels go into the report), or goes on with a new state.
\<close>

datatype loop_result = Raised py_error | Returned "string list" | Continue merge_state

definition new_entry :: "string \<Rightarrow> table_entry" where
  "new_entry fp =
     \<lparr>file_name = path_name fp, row_count = 0, missing_columns = [], extra_columns = [],
      status = Ok, match_rate = None, entry_note = No_note\<rparr>"

definition process_file ::
  "reader \<Rightarrow> string list \<Rightarrow> bool \<Rightarrow> nat \<Rightarrow> string \<Rightarrow> merge_state \<Rightarrow> loop_result" where
  "process_file rd key_cols template_incremental i fp st =
     (case rd fp of
        Inl e \<Rightarrow>
          Continue (st\<lparr>st_tables := st_tables st @
                        [(new_entry fp)\<lparr>status := Read_error, entry_note := Error_text e\<rparr>]\<rparr>)
      | Inr df0 \<Rightarrow>
          (case (if key_cols \<noteq> [] then strip_primary_key_columns df0 key_cols else Inr df0) of
             Inl err \<Rightarrow> Raised err
           | Inr df \<Rightarrow>
               let entry = (new_entry fp)\<lparr>row_count := length (rows df)\<rparr>;
                   actual_columns = columns df
               in
               if i = 0 then
                 if \<not> distinct actual_columns then Returned actual_columns
                 else
                   let cols = (case cols_to_use st of
                                 None \<Rightarrow> actual_columns
                               | Some cs \<Rightarrow> if cs = [] then actual_columns else cs)
                   in (case (if key_cols \<noteq> [] \<and> template_incremental then Inr df else reindex df cols) of
                         Inl err \<Rightarrow> Raised err
                       | Inr kept \<Rightarrow>
                           Continue (st\<lparr>cols_to_use := Some cols,
                                       st_reference_columns := cols,
                                       merged_dfs := merged_dfs st @ [kept],
                                       st_tables := st_tables st @
                                         [entry\<lparr>missing_columns := filter (\<lambda>c. c \<notin> set actual_columns) cols,
                                                extra_columns := filter (\<lambda>c. c \<notin> set cols) actual_columns\<rparr>]\<rparr>))
               else
                 (case cols_to_use st of
                    None \<Rightarrow> Raised TypeError
                  | Some cols \<Rightarrow>
                      if set actual_columns \<inter> set cols = {} then
                        Continue (st\<lparr>st_tables := st_tables st @
                                      [entry\<lparr>status := Fatal_mismatch, missing_columns := cols,
                                             extra_columns := actual_columns,
                                             entry_note := Skipped_no_common_column\<rparr>],
                                    fatal_count := fatal_count st + 1\<rparr>)
                      else
                        (case reindex df cols of
                           Inl err \<Rightarrow> Raised err
                         | Inr aligned \<Rightarrow>
                             Continue (st\<lparr>st_tables := st_tables st @
                                           [entry\<lparr>missing_columns := filter (\<lambda>c. c \<notin> set actual_columns) cols,
                                                  extra_columns := filter (\<lambda>c. c \<notin> set cols) actual_columns\<rparr>],
                                         merged_dfs := merged_dfs st @ [aligned]\<rparr>)))))"

fun merge_loop ::
  "reader \<Rightarrow> string list \<Rightarrow> bool \<Rightarrow> nat \<Rightarrow> string list \<Rightarrow> merge_state \<Rightarrow> loop_result" where
  "merge_loop rd key_cols template_incremental i [] st = Continue st"
| "merge_loop rd key_cols template_incremental i (fp # fps) st =
     (case process_file rd key_cols template_incremental i fp st of
        Continue st' \<Rightarrow> merge_loop rd key_cols template_incremental (Suc i) fps st'
      | Raised err \<Rightarrow> Raised err
      | Returned cols \<Rightarrow> Returned cols)"

subsection \<open>The key join\<close>

text \<open>
  The keys of the two frames are compared as members of Python sets of tuples:
  \<^verbatim>\<open>len(left_keys & right_keys)\<close> is the number of distinct keys of the first frame that
  are keys of the joined frame. A NaN cell leaves \<^verbatim>\<open>.values.tolist()\<close> as a float object
  of its own, equal to no other object, so a key with a NaN cell is matched by no key.
\<close>

definition matched_keys :: "dataframe \<Rightarrow> dataframe \<Rightarrow> string list \<Rightarrow> nat" where
  "matched_keys first right_df on =
     length (remdups (filter (\<lambda>k. None \<notin> set k \<and> k \<in> set (key_tuples right_df on))
                             (key_tuples first on)))"

text \<open>
  The rate is a Python float, a binary64 number, given here by the rational it denotes.
  \<open>bit_length\<close> is that of Python's ints, and \<open>floor_log2 x\<close> is the exponent of the
  greatest power of two that is at most a positive \<open>x\<close>. \<open>binary64 x\<close> is the float nearest
  to \<open>x\<close>, the one with the even significand of two equally near; below the exponent
  \<open>-1022\<close> the floats keep the spacing they have there. Magnitudes from \<open>2^1024\<close> on,
  where the nearest float is an infinity, do not occur: a rate is at most 1.
\<close>

function bit_length :: "int \<Rightarrow> nat" where
  "bit_length n = (if n \<le> 0 then 0 else Suc (bit_length (n div 2)))"
  by pat_completeness auto
termination
  by (relation "measure nat") auto

declare bit_length.simps [simp del]

definition pow2 :: "int \<Rightarrow> rat" where
  "pow2 e = (if 0 \<le> e then 2 ^ nat e else 1 / 2 ^ nat (- e))"

definition floor_log2 :: "rat \<Rightarrow> int" where
  "floor_log2 x =
     (let d = int (bit_length (fst (quotient_of x))) - int (bit_length (snd (quotient_of x)))
      in if pow2 d \<le> x then d else d - 1)"

definition round_half_even :: "rat \<Rightarrow> int" where
  "round_half_even x =
     (let f = \<lfloor>x\<rfloor>; d = x - of_int f
      in if d < 1 / 2 then f else if 1 / 2 < d then f + 1 else if even f then f else f + 1)"

definition binary64 :: "rat \<Rightarrow> rat" where
  "binary64 x =
     (if x = 0 then 0
      else let ulp = pow2 (max (floor_log2 \<bar>x\<bar>) (- 1022) - 52)
           in of_int (round_half_even (x / ulp)) * ulp)"

text \<open>
  \<^verbatim>\<open>matched / total_left\<close>, the quotient of two ints, is the float nearest to the exact
  quotient. \<^verbatim>\<open>round(rate, 4)\<close> takes the multiple of one ten-thousandth nearest to the float
  \<open>rate\<close>, the even multiple of two equally near, and gives the float nearest to that
  decimal. The threshold \<^verbatim>\<open>0.8\<close> is the float nearest to four fifths.
\<close>

definition key_match_rate :: "dataframe \<Rightarrow> dataframe \<Rightarrow> string list \<Rightarrow> rat" where
  "key_match_rate first right_df on =
     (if length (rows first) \<noteq> 0
      then binary64 (of_nat (matched_keys first right_df on) / of_nat (length (rows first)))
      else 1)"

definition round4 :: "rat \<Rightarrow> rat" where
  "round4 x = binary64 (of_int (round_half_even (x * 10000)) / 10000)"

definition MATCH_RATE_WARN_THRESHOLD :: rat where
  "MATCH_RATE_WARN_THRESHOLD = binary64 (4 / 5)"

record join_state =
  left_frame :: dataframe
  js_tables :: "table_entry list"
  js_warning :: "warning option"

text \<open>The body of the loop \<^verbatim>\<open>for idx in range(1, len(merged_dfs))\<close>.\<close>

definition join_step :: "dataframe \<Rightarrow> string list \<Rightarrow> nat \<Rightarrow> dataframe \<Rightarrow> join_state \<Rightarrow> join_state" where
  "join_step first key_cols_use idx right_df js =
     (let left_df = left_frame js;
          merge_on = filter (\<lambda>c. c \<in> set (columns left_df) \<and> c \<in> set (columns right_df)) key_cols_use
      in if merge_on = [] then js
         else
           let right_only = filter (\<lambda>c. c \<notin> set (columns left_df)) (columns right_df);
               right_merge = drop_duplicates (select_columns right_df (merge_on @ right_only)) merge_on;
               joined = left_merge left_df right_merge merge_on;
               dup_cols = filter (\<lambda>c. endswith c ''_dup'') (columns joined);
               rate = key_match_rate first right_df merge_on
           in \<lparr>left_frame = drop_columns joined dup_cols,
               js_tables = (if idx < length (js_tables js)
                            then (js_tables js)[idx := (js_tables js ! idx)\<lparr>match_rate := Some (round4 rate)\<rparr>]
                            else js_tables js),
               js_warning = (if rate < MATCH_RATE_WARN_THRESHOLD \<and> js_warning js = None then Some Keys_unmatched
                             else js_warning js)\<rparr>)"

fun join_loop :: "dataframe \<Rightarrow> string list \<Rightarrow> nat \<Rightarrow> dataframe list \<Rightarrow> join_state \<Rightarrow> join_state" where
  "join_loop first key_cols_use idx [] js = js"
| "join_loop first key_cols_use idx (right_df # rest) js =
     join_loop first key_cols_use (Suc idx) rest (join_step first key_cols_use idx right_df js)"

subsection \<open>\<^verbatim>\<open>merge_and_report\<close>\<close>

text \<open>The part after the loop over the files: nothing kept, the key join, or the stack.\<close>

definition finish_merge ::
  "string list \<Rightarrow> schema_report \<Rightarrow> merge_state \<Rightarrow> py_error + (dataframe \<times> schema_report)" where
  "finish_merge key_cols report0 st =
     (let report = report0\<lparr>reference_columns := st_reference_columns st, tables := st_tables st,
                           fatal_mismatch_count := fatal_count st\<rparr>
      in case merged_dfs st of
           [] \<Rightarrow> Inr (empty_df, report\<lparr>merged_row_count := 0\<rparr>)
         | first # others \<Rightarrow>
             let key_cols_use = filter (\<lambda>c. c \<in> set (columns first)) key_cols
             in if key_cols \<noteq> [] \<and> key_cols_use \<noteq> [] then
                  let js = join_loop first key_cols_use 1 others
                             \<lparr>left_frame = first, js_tables = tables report, js_warning = merge_warning report\<rparr>
                  in (case reindex (left_frame js) (reference_columns report) of
                        Inl err \<Rightarrow> Inl err
                      | Inr result \<Rightarrow>
                          Inr (result, report\<lparr>tables := js_tables js, merge_warning := js_warning js,
                                             merged_row_count := length (rows result)\<rparr>))
                else
                  (case concat_frames (first # others) of
                     Inl err \<Rightarrow> Inl err
                   | Inr result \<Rightarrow> Inr (result, report\<lparr>merged_row_count := length (rows result)\<rparr>)))"

text \<open>
  The optional arguments \<^verbatim>\<open>baseline_columns\<close> and \<^verbatim>\<open>primary_key_columns\<close> are used
  only through their truth value and their elements, so the empty list stands for \<open>None\<close>
  as well.
\<close>

definition initial_report :: "string \<Rightarrow> schema_report" where
  "initial_report fp0 =
     \<lparr>reference_file = path_name fp0, reference_columns = [], tables = [], merged_row_count = 0,
      fatal_mismatch_count = 0, merge_warning = None, error = None\<rparr>"

text \<open>The variables before the loop: \<^verbatim>\<open>cols_to_use\<close> is the baseline given, or the incremental union.\<close>

definition initial_state :: "reader \<Rightarrow> string list \<Rightarrow> string list \<Rightarrow> bool \<Rightarrow> merge_state" where
  "initial_state rd file_paths baseline_columns template_incremental =
     (let given = (if baseline_columns \<noteq> [] then Some baseline_columns else None)
      in \<lparr>st_tables = [], merged_dfs = [], fatal_count = 0,
          cols_to_use = (if template_incremental
                         then Some (incremental_columns rd file_paths given) else given),
          st_reference_columns = []\<rparr>)"

definition merge_and_report ::
  "reader \<Rightarrow> string list \<Rightarrow> string list \<Rightarrow> bool \<Rightarrow> string list
     \<Rightarrow> py_error + (dataframe \<times> schema_report)" where
  "merge_and_report rd file_paths baseline_columns template_incremental primary_key_columns =
     (case file_paths of
        [] \<Rightarrow>
          Inr (empty_df,
               \<lparr>reference_file = [], reference_columns = [], tables = [], merged_row_count = 0,
                fatal_mismatch_count = 0, merge_warning = None, error = Some File_paths_empty\<rparr>)
      | fp0 # fps \<Rightarrow>
          (case merge_loop rd primary_key_columns template_incremental 0 file_paths
                  (initial_state rd file_paths baseline_columns template_incremental) of
             Raised err \<Rightarrow> Inl err
           | Returned actual_columns \<Rightarrow>
               Inr (empty_df, (initial_report fp0)\<lparr>error := Some Baseline_duplicate_columns,
                                                    reference_columns := actual_columns\<rparr>)
           | Continue st \<Rightarrow> finish_merge primary_key_columns (initial_report fp0) st))"

section \<open>Notions used in the statements\<close>

text \<open>The two kinds of record that the null pass writes.\<close>

definition is_null_kind :: "defect \<Rightarrow> bool" where
  "is_null_kind e \<longleftrightarrow> error_type e = Null_structural \<or> error_type e = Null_business"

text \<open>The record that the duplicate pass writes for a row.\<close>

definition duplicate_defect :: "string list \<Rightarrow> nat \<Rightarrow> defect" where
  "duplicate_defect key_cols ri =
     \<lparr>row_index = ri, col_name = join '','' key_cols, error_type = Duplicate,
      severity = Business, message = Msg_duplicate_key key_cols\<rparr>"

text \<open>The report as it stands when the loop over the files is done.\<close>

definition report_of :: "schema_report \<Rightarrow> merge_state \<Rightarrow> schema_report" where
  "report_of report0 st =
     report0\<lparr>reference_columns := st_reference_columns st, tables := st_tables st,
             fatal_mismatch_count := fatal_count st\<rparr>"

text \<open>
  An entry of the report describes a file: it has the name of the file, and either the file
  cannot be read and the entry says so, with no rows, or it has the row count of the file.
\<close>

definition entry_describes :: "reader \<Rightarrow> string \<Rightarrow> table_entry \<Rightarrow> bool" where
  "entry_describes rd fp e \<longleftrightarrow>
     file_name e = path_name fp \<and>
     (case rd fp of
        Inl t \<Rightarrow> status e = Read_error \<and> row_count e = 0
      | Inr d \<Rightarrow> status e \<noteq> Read_error \<and> row_count e = length (rows d))"

section \<open>Sample inputs\<close>

text \<open>
  Concrete inputs on which the theorems below are instantiated. The library functions of
  the sample are an excerpt of \<^verbatim>\<open>float\<close> on a few numerals, no pattern at all, and the
  linear interpolation between the two nearest ranks that pandas takes for a quantile,
  on finite values.
\<close>

definition sample_float :: "string \<Rightarrow> pyfloat option" where
  "sample_float = map_of [(''10'', Fin 10), (''11'', Fin 11), (''12'', Fin 12), (''13'', Fin 13),
                          (''20'', Fin 20), (''100'', Fin 100)]"

definition finite_values :: "pyfloat list \<Rightarrow> rat list" where
  "finite_values vs = List.map_filter (\<lambda>v. case v of Fin a \<Rightarrow> Some a | _ \<Rightarrow> None) vs"

definition linear_quantile :: "pyfloat list \<Rightarrow> rat \<Rightarrow> pyfloat" where
  "linear_quantile vs q =
     (let xs = sort (finite_values vs); n = length xs
      in if n = 0 \<or> n \<noteq> length vs then NaN
         else let h = of_nat (n - 1) * q; lo = nat \<lfloor>h\<rfloor>; hi = min (lo + 1) (n - 1)
              in Fin (xs ! lo + (xs ! hi - xs ! lo) * (h - of_nat lo)))"

definition sample_lib :: pylib where
  "sample_lib = \<lparr>py_float = sample_float, re_compile = (\<lambda>p. None), quantile = linear_quantile\<rparr>"

definition sample_table :: dataframe where
  "sample_table =
     \<lparr>columns = [''name'', ''score'', ''max''],
      rows = [[Some ''ann'', Some ''10'', Some ''20''],
              [Some ''bob'', Some ''12'', Some ''11''],
              [Some ''ann'', Some ''11'', Some ''20''],
              [Some ''cy'', Some ''13'', Some ''abc''],
              [Some ''dan'', Some ''100'', None],
              [None, Some ''12'', None]]\<rparr>"

definition sample_report :: schema_report where
  "sample_report =
     \<lparr>reference_file = ''one.csv'', reference_columns = [''name'', ''score'', ''max''],
      tables = [\<lparr>file_name = ''one.csv'', row_count = 4, missing_columns = [], extra_columns = [],
                 status = Ok, match_rate = None, entry_note = No_note\<rparr>,
                \<lparr>file_name = ''two.csv'', row_count = 2, missing_columns = [''max''],
                 extra_columns = [], status = Ok, match_rate = None, entry_note = No_note\<rparr>],
      merged_row_count = 6, fatal_mismatch_count = 0, merge_warning = None, error = None\<rparr>"

definition sample_scanner :: scanner where
  "sample_scanner =
     new_scanner [''name''] [''score'', ''max''] [] []
       [\<lparr>left = Some ''score'', op = Some ''<='', right = Some ''max''\<rparr>]"

text \<open>A scanner whose only key column is not a label of the sample table.\<close>

definition unkeyed_scanner :: scanner where
  "unkeyed_scanner = new_scanner [''id''] [''score''] [] [] []"

text \<open>A reader of six files; every other path is a file it cannot read.\<close>

definition sample_reader :: reader where
  "sample_reader fp =
     (if fp = ''a.csv'' then Inr \<lparr>columns = [''a'', ''b''], rows = [[Some ''1'', Some ''x'']]\<rparr>
      else if fp = ''b.csv''
        then Inr \<lparr>columns = [''b'', ''c''], rows = [[Some ''y'', Some ''2''], [None, Some ''3'']]\<rparr>
      else if fp = ''k0.csv''
        then Inr \<lparr>columns = [''k'', ''v''],
                  rows = [[Some ''a'', Some ''1''], [Some ''b'', Some ''2''], [Some ''c'', Some ''3'']]\<rparr>
      else if fp = ''k1.csv''
        then Inr \<lparr>columns = [''k'', ''w''], rows = [[Some '' a '', Some ''9''], [Some ''a'', Some ''8'']]\<rparr>
      else if fp = ''dup.csv'' then Inr \<lparr>columns = [''a'', ''a''], rows = [[Some ''1'', Some ''2'']]\<rparr>
      else if fp = ''z.csv'' then Inr \<lparr>columns = [''p'', ''q''], rows = [[Some ''1'', Some ''2'']]\<rparr>
      else Inl ''unsupported'')"

section \<open>Properties of the health scanner\<close>

subsection \<open>The records of a scan, pass by pass\<close>

lemma errors_summarise: "errors (summarise es) = es"
  by (simp add: summarise_def Let_def)

lemma scan_errors:
  "errors (scan L sc df rep) =
     null_errors df rep @ type_errors_of L sc df @ duplicate_errors sc df
     @ outlier_errors L sc df @ pattern_errors L sc df @ constraint_errors L sc df"
  by (simp add: scan_def errors_summarise)

lemma type_errors_kind:
  "e \<in> set (type_errors_of L sc df) \<Longrightarrow> error_type e = Type_inconsistent \<and> severity e = Business"
  by (auto simp: type_errors_of_def type_errors_col_def split: if_splits option.splits)

lemma duplicate_errors_kind:
  "e \<in> set (duplicate_errors sc df) \<Longrightarrow> error_type e = Duplicate \<and> severity e = Business"
  by (auto simp: duplicate_errors_def Let_def split: if_splits)

lemma outlier_errors_kind:
  "e \<in> set (outlier_errors L sc df) \<Longrightarrow> error_type e = Outlier \<and> severity e = Business"
  by (auto simp: outlier_errors_def outlier_errors_col_def outlier_errors_row_def Let_def
           split: if_splits option.splits prod.splits)

lemma pattern_errors_kind:
  "e \<in> set (pattern_errors L sc df) \<Longrightarrow> error_type e = Pattern_mismatch \<and> severity e = Business"
  by (auto simp: pattern_errors_def pattern_errors_col_def Let_def split: if_splits option.splits)

lemma constraint_errors_kind:
  "e \<in> set (constraint_errors L sc df) \<Longrightarrow>
     error_type e = Constraint_violation \<and> severity e = Business"
  by (auto simp: constraint_errors_def constraint_errors_one_def constraint_defect_def Let_def
           split: if_splits option.splits)

lemma null_errors_shape:
  "e \<in> set (null_errors df rep) \<Longrightarrow>
     row_index e < length (rows df) \<and> col_name e \<in> set (columns df) \<and>
     is_empty (cell_at df (row_index e) (col_name e)) \<and>
     (error_type e = Null_structural \<or> error_type e = Null_business) \<and>
     (error_type e = Null_structural \<longleftrightarrow>
        col_name e \<in> missing_cols_of rep (row_index_to_file_index (row_index e) rep)) \<and>
     (severity e = Structural \<longleftrightarrow> error_type e = Null_structural)"
  by (auto simp: null_errors_def null_errors_row_def null_defect_def Let_def split: if_splits)

text \<open>In a list built from the distinct elements of \<open>xs\<close>, what one element contributed.\<close>

lemma filter_concat_map_single:
  assumes "distinct xs" and "x \<in> set xs"
    and "\<And>y. y \<in> set xs \<Longrightarrow> y \<noteq> x \<Longrightarrow> filter P (f y) = []"
  shows "filter P (concat (map f xs)) = filter P (f x)"
  using assms
proof (induction xs)
  case Nil
  then show ?case by simp
next
  case (Cons a xs)
  show ?case
  proof (cases "a = x")
    case True
    with Cons.prems have "x \<notin> set xs" by simp
    then have "\<And>y. y \<in> set xs \<Longrightarrow> filter P (f y) = []"
      using Cons.prems(3) by auto
    then have "filter P (concat (map f xs)) = []"
      by (induction xs) auto
    with True show ?thesis by simp
  next
    case False
    with Cons show ?thesis by auto
  qed
qed

subsection \<open>Null classification\<close>

lemma null_errors_row_index: "e \<in> set (null_errors_row df rep r) \<Longrightarrow> row_index e = r"
  by (auto simp: null_errors_row_def null_defect_def Let_def split: if_splits)

lemma null_errors_row_filter:
  assumes "distinct (columns df)" and "col \<in> set (columns df)" and "is_empty (cell_at df ri col)"
  shows "filter (\<lambda>e. row_index e = ri \<and> col_name e = col \<and> is_null_kind e) (null_errors_row df rep ri)
         = [null_defect ri col (col \<in> missing_cols_of rep (row_index_to_file_index ri rep))]"
proof -
  let ?P = "\<lambda>e. row_index e = ri \<and> col_name e = col \<and> is_null_kind e"
  let ?f = "\<lambda>c. if \<not> is_empty (cell_at df ri c) then []
                 else [null_defect ri c (c \<in> missing_cols_of rep (row_index_to_file_index ri rep))]"
  have other: "\<And>y. y \<in> set (columns df) \<Longrightarrow> y \<noteq> col \<Longrightarrow> filter ?P (?f y) = []"
    by (simp add: null_defect_def)
  have "filter ?P (concat (map ?f (columns df))) = filter ?P (?f col)"
    by (rule filter_concat_map_single [OF assms(1) assms(2) other])
  also have "\<dots> = [null_defect ri col (col \<in> missing_cols_of rep (row_index_to_file_index ri rep))]"
    using assms(3) by (simp add: null_defect_def is_null_kind_def)
  finally show ?thesis by (simp add: null_errors_row_def Let_def)
qed

lemma null_errors_filter:
  assumes "distinct (columns df)" and "ri < length (rows df)" and "col \<in> set (columns df)"
    and "is_empty (cell_at df ri col)"
  shows "filter (\<lambda>e. row_index e = ri \<and> col_name e = col \<and> is_null_kind e) (null_errors df rep)
         = [null_defect ri col (col \<in> missing_cols_of rep (row_index_to_file_index ri rep))]"
proof -
  let ?P = "\<lambda>e. row_index e = ri \<and> col_name e = col \<and> is_null_kind e"
  have other: "\<And>y. y \<in> set [0..<length (rows df)] \<Longrightarrow> y \<noteq> ri
                 \<Longrightarrow> filter ?P (null_errors_row df rep y) = []"
    by (auto simp: filter_empty_conv dest: null_errors_row_index)
  have "filter ?P (concat (map (null_errors_row df rep) [0..<length (rows df)]))
        = filter ?P (null_errors_row df rep ri)"
    by (rule filter_concat_map_single [OF _ _ other]) (use assms(2) in auto)
  then show ?thesis
    using null_errors_row_filter [OF assms(1) assms(3) assms(4)] by (simp add: null_errors_def)
qed

lemma lower_char_eq_not_space:
  "lower_char x = CHR ''n'' \<or> lower_char x = CHR ''a'' \<Longrightarrow> \<not> is_space x"
  by (auto simp: lower_char_def is_space_def Let_def split: if_splits)

lemma strip_no_space_ends:
  "s \<noteq> [] \<Longrightarrow> \<not> is_space (hd s) \<Longrightarrow> \<not> is_space (last s) \<Longrightarrow> strip s = s"
proof -
  assume a: "s \<noteq> []" "\<not> is_space (hd s)" "\<not> is_space (last s)"
  then have "dropWhile is_space s = s"
    by (cases s) auto
  moreover from a have "dropWhile is_space (rev s) = rev s"
    by (cases "rev s") (auto simp: hd_rev)
  ultimately show ?thesis by (simp add: strip_def)
qed

text \<open>The three forms of an empty cell: NaN, a blank string, the text \<^verbatim>\<open>nan\<close> in any case.\<close>

lemma empty_cell_forms:
  "is_empty None"
  "strip s = [] \<Longrightarrow> is_empty (Some s)"
  "str_lower s = ''nan'' \<Longrightarrow> is_empty (Some s)"
proof -
  show "is_empty None" by (simp add: is_empty_def)
  show "strip s = [] \<Longrightarrow> is_empty (Some s)" by (simp add: is_empty_def)
  assume l: "str_lower s = ''nan''"
  then obtain a b c where s: "s = [a, b, c]"
    and ch: "lower_char a = CHR ''n''" "lower_char b = CHR ''a''" "lower_char c = CHR ''n''"
    by (auto simp: str_lower_def map_eq_Cons_conv)
  from ch have "\<not> is_space a" "\<not> is_space c"
    using lower_char_eq_not_space by blast+
  with s have "strip s = s"
    by (intro strip_no_space_ends) simp_all
  with l show "is_empty (Some s)" by (simp add: is_empty_def)
qed

text \<open>
  C1. On a table with distinct column labels, an empty cell at row \<open>ri\<close> and column \<open>col\<close>
  gets exactly one null record among all records of the scan. The record is
  \<open>Null_structural\<close> with severity \<open>Structural\<close> if \<open>col\<close> is among the missing columns of
  the table entry that the walk over the cumulative row counts selects for \<open>ri\<close>, and
  \<open>Null_business\<close> with severity \<open>Business\<close> otherwise. Moreover every record of kind
  \<open>Null_structural\<close> names a column in the missing columns of the entry selected for its
  row, and every record of kind \<open>Null_business\<close> names a column outside them.
\<close>

theorem C1_null_classification:
  assumes "distinct (columns df)" and "ri < length (rows df)" and "col \<in> set (columns df)"
    and "is_empty (cell_at df ri col)"
  shows "filter (\<lambda>e. row_index e = ri \<and> col_name e = col \<and>
                      (error_type e = Null_structural \<or> error_type e = Null_business))
                (errors (scan L sc df rep))
         = [if col \<in> missing_cols_of rep (row_index_to_file_index ri rep)
            then \<lparr>row_index = ri, col_name = col, error_type = Null_structural,
                  severity = Structural, message = Msg_missing_in_source\<rparr>
            else \<lparr>row_index = ri, col_name = col, error_type = Null_business,
                  severity = Business, message = Msg_empty_value\<rparr>]
       \<and> (\<forall>e \<in> set (errors (scan L sc df rep)).
            (error_type e = Null_structural \<longrightarrow>
               col_name e \<in> missing_cols_of rep (row_index_to_file_index (row_index e) rep))
          \<and> (error_type e = Null_business \<longrightarrow>
               col_name e \<notin> missing_cols_of rep (row_index_to_file_index (row_index e) rep)))"
proof
  let ?P = "\<lambda>e. row_index e = ri \<and> col_name e = col \<and> is_null_kind e"
  have rest: "filter ?P (type_errors_of L sc df) = []" "filter ?P (duplicate_errors sc df) = []"
    "filter ?P (outlier_errors L sc df) = []" "filter ?P (pattern_errors L sc df) = []"
    "filter ?P (constraint_errors L sc df) = []"
    by (auto simp: filter_empty_conv is_null_kind_def dest: type_errors_kind duplicate_errors_kind
          outlier_errors_kind pattern_errors_kind constraint_errors_kind)
  have "filter ?P (errors (scan L sc df rep)) = filter ?P (null_errors df rep)"
    by (simp add: scan_errors rest)
  with null_errors_filter [OF assms]
  show "filter (\<lambda>e. row_index e = ri \<and> col_name e = col \<and>
                      (error_type e = Null_structural \<or> error_type e = Null_business))
                (errors (scan L sc df rep))
         = [if col \<in> missing_cols_of rep (row_index_to_file_index ri rep)
            then \<lparr>row_index = ri, col_name = col, error_type = Null_structural,
                  severity = Structural, message = Msg_missing_in_source\<rparr>
            else \<lparr>row_index = ri, col_name = col, error_type = Null_business,
                  severity = Business, message = Msg_empty_value\<rparr>]"
    by (simp add: is_null_kind_def null_defect_def)
next
  show "\<forall>e \<in> set (errors (scan L sc df rep)).
            (error_type e = Null_structural \<longrightarrow>
               col_name e \<in> missing_cols_of rep (row_index_to_file_index (row_index e) rep))
          \<and> (error_type e = Null_business \<longrightarrow>
               col_name e \<notin> missing_cols_of rep (row_index_to_file_index (row_index e) rep))"
  proof
    fix e
    assume "e \<in> set (errors (scan L sc df rep))"
    then consider "e \<in> set (null_errors df rep)" | "e \<in> set (type_errors_of L sc df)"
      | "e \<in> set (duplicate_errors sc df)" | "e \<in> set (outlier_errors L sc df)"
      | "e \<in> set (pattern_errors L sc df)" | "e \<in> set (constraint_errors L sc df)"
      by (auto simp: scan_errors)
    then show "(error_type e = Null_structural \<longrightarrow>
               col_name e \<in> missing_cols_of rep (row_index_to_file_index (row_index e) rep))
          \<and> (error_type e = Null_business \<longrightarrow>
               col_name e \<notin> missing_cols_of rep (row_index_to_file_index (row_index e) rep))"
    proof cases
      case 1
      from null_errors_shape [OF 1] show ?thesis by auto
    qed (auto dest: type_errors_kind duplicate_errors_kind
          outlier_errors_kind pattern_errors_kind constraint_errors_kind)
  qed
qed

theorem C1_null_classification_witness:
  "filter (\<lambda>e. row_index e = 4 \<and> col_name e = ''max'' \<and>
                (error_type e = Null_structural \<or> error_type e = Null_business))
          (errors (scan sample_lib sample_scanner sample_table sample_report))
   = [\<lparr>row_index = 4, col_name = ''max'', error_type = Null_structural,
        severity = Structural, message = Msg_missing_in_source\<rparr>]"
proof -
  have h1: "distinct (columns sample_table)"
    by (simp add: sample_table_def)
  have h2: "4 < length (rows sample_table)"
    by (simp add: sample_table_def)
  have h3: "''max'' \<in> set (columns sample_table)"
    by (simp add: sample_table_def)
  have h4: "is_empty (cell_at sample_table 4 ''max'')"
    by (simp add: sample_table_def cell_at_def is_empty_def)
  have mem: "''max'' \<in> missing_cols_of sample_report (row_index_to_file_index 4 sample_report)"
    by (simp add: row_index_to_file_index_def missing_cols_of_def get_missing_columns_by_file_def
                  sample_report_def)
  from C1_null_classification [OF h1 h2 h3 h4, of sample_lib sample_scanner sample_report] mem
  show ?thesis
    by simp
qed

subsection \<open>Duplicates\<close>

lemma duplicate_rows_upt:
  "duplicate_rows key [a..<b] seen
   = filter (\<lambda>i. key i \<in> seen \<or> (\<exists>j. a \<le> j \<and> j < i \<and> key j = key i)) [a..<b]"
proof (induction "b - a" arbitrary: a seen)
  case 0
  then show ?case by simp
next
  case (Suc n)
  then have ab: "a < b" and n: "n = b - Suc a" by auto
  have upt: "[a..<b] = a # [Suc a..<b]" using ab by (simp add: upt_conv_Cons)
  show ?case
  proof (cases "key a \<in> seen")
    case True
    have "filter (\<lambda>i. key i \<in> seen \<or> (\<exists>j. Suc a \<le> j \<and> j < i \<and> key j = key i)) [Suc a..<b]
          = filter (\<lambda>i. key i \<in> seen \<or> (\<exists>j. a \<le> j \<and> j < i \<and> key j = key i)) [Suc a..<b]"
    proof (rule filter_cong [OF refl])
      fix i assume "i \<in> set [Suc a..<b]"
      show "(key i \<in> seen \<or> (\<exists>j. Suc a \<le> j \<and> j < i \<and> key j = key i))
            = (key i \<in> seen \<or> (\<exists>j. a \<le> j \<and> j < i \<and> key j = key i))"
        using True by (metis Suc_leD Suc_leI le_neq_implies_less)
    qed
    with True Suc.hyps(1) [OF n, of seen] show ?thesis by (simp add: upt)
  next
    case False
    have "filter (\<lambda>i. key i \<in> insert (key a) seen \<or> (\<exists>j. Suc a \<le> j \<and> j < i \<and> key j = key i)) [Suc a..<b]
          = filter (\<lambda>i. key i \<in> seen \<or> (\<exists>j. a \<le> j \<and> j < i \<and> key j = key i)) [Suc a..<b]"
    proof (rule filter_cong [OF refl])
      fix i assume i: "i \<in> set [Suc a..<b]"
      then have "a < i" by simp
      then show "(key i \<in> insert (key a) seen \<or> (\<exists>j. Suc a \<le> j \<and> j < i \<and> key j = key i))
            = (key i \<in> seen \<or> (\<exists>j. a \<le> j \<and> j < i \<and> key j = key i))"
        by (metis Suc_leD Suc_leI insert_iff le_neq_implies_less order_refl)
    qed
    with False Suc.hyps(1) [OF n, of "insert (key a) seen"] show ?thesis by (simp add: upt)
  qed
qed

lemma filter_map_upt_single:
  assumes "\<And>i. row_index (f i) = i"
  shows "filter (\<lambda>e. row_index e = ri) (map f (filter P [0..<n]))
         = (if ri < n \<and> P ri then [f ri] else [])"
proof -
  have "filter (\<lambda>e. row_index e = ri) (map f (filter P [0..<n]))
        = map f (filter (\<lambda>i. i = ri \<and> P i) [0..<n])"
    by (simp add: filter_map o_def assms conj_commute)
  also have "filter (\<lambda>i. i = ri \<and> P i) [0..<n] = (if ri < n \<and> P ri then [ri] else [])"
    by (induction n) auto
  finally show ?thesis by simp
qed

lemma duplicate_errors_filter:
  assumes "key_cols = present_key_columns sc df"
    and "key_cols \<noteq> []" and "ri < length (rows df)"
  shows "filter (\<lambda>e. row_index e = ri) (duplicate_errors sc df)
         = (if \<exists>rj<ri. row_key df key_cols rj = row_key df key_cols ri
            then [duplicate_defect key_cols ri] else [])"
proof -
  have "duplicate_errors sc df
        = map (duplicate_defect key_cols)
              (filter (\<lambda>i. \<exists>j<i. row_key df key_cols j = row_key df key_cols i) [0..<length (rows df)])"
    using assms(1,2) by (simp add: duplicate_errors_def Let_def duplicate_rows_upt duplicate_defect_def)
  then show ?thesis
    using assms(3) by (simp add: filter_map_upt_single duplicate_defect_def)
qed

lemma filter_no_kind:
  assumes "\<And>e. e \<in> set es \<Longrightarrow> error_type e \<noteq> k"
  shows "filter (\<lambda>e. error_type e = k \<and> P e) es = []"
  using assms by (auto simp: filter_empty_conv)

text \<open>
  C9, as amended. The key columns of the check are the configured composite-key columns
  that are labels of the table, and the key of a row has the empty string for NaN. If at
  least one key column is present, then for every row the scan holds exactly one
  \<open>Duplicate\<close> record of that row if an earlier row has the same key, and none otherwise:
  the first row with a key is never flagged, every later one is flagged once. If no key
  column is present the duplicate check is skipped and no \<open>Duplicate\<close> record is written.
\<close>

theorem C9_duplicates:
  assumes "key_cols = present_key_columns sc df"
  shows "(key_cols = [] \<longrightarrow> filter (\<lambda>e. error_type e = Duplicate) (errors (scan L sc df rep)) = [])
       \<and> (key_cols \<noteq> [] \<longrightarrow>
            (\<forall>ri < length (rows df).
               filter (\<lambda>e. error_type e = Duplicate \<and> row_index e = ri) (errors (scan L sc df rep))
               = (if \<exists>rj<ri. row_key df key_cols rj = row_key df key_cols ri
                  then [\<lparr>row_index = ri, col_name = join '','' key_cols, error_type = Duplicate,
                         severity = Business, message = Msg_duplicate_key key_cols\<rparr>]
                  else [])))"
proof -
  have others: "filter (\<lambda>e. error_type e = Duplicate \<and> P e) (null_errors df rep) = []"
    "filter (\<lambda>e. error_type e = Duplicate \<and> P e) (type_errors_of L sc df) = []"
    "filter (\<lambda>e. error_type e = Duplicate \<and> P e) (outlier_errors L sc df) = []"
    "filter (\<lambda>e. error_type e = Duplicate \<and> P e) (pattern_errors L sc df) = []"
    "filter (\<lambda>e. error_type e = Duplicate \<and> P e) (constraint_errors L sc df) = []" for P
    by (rule filter_no_kind; auto dest: null_errors_shape type_errors_kind
          outlier_errors_kind pattern_errors_kind constraint_errors_kind)+
  have dup_all: "filter (\<lambda>e. error_type e = Duplicate \<and> P e) (duplicate_errors sc df)
                 = filter P (duplicate_errors sc df)" for P
    by (rule filter_cong) (auto dest: duplicate_errors_kind)
  have scan_dup: "filter (\<lambda>e. error_type e = Duplicate \<and> P e) (errors (scan L sc df rep))
                  = filter P (duplicate_errors sc df)" for P
    by (simp add: scan_errors others dup_all)
  show ?thesis
  proof (intro conjI impI allI)
    assume "key_cols = []"
    then have "duplicate_errors sc df = []"
      using assms by (simp add: duplicate_errors_def)
    with scan_dup [of "\<lambda>e. True"] show "filter (\<lambda>e. error_type e = Duplicate) (errors (scan L sc df rep)) = []"
      by simp
  next
    fix ri assume "key_cols \<noteq> []" "ri < length (rows df)"
    from duplicate_errors_filter [OF assms this] scan_dup [of "\<lambda>e. row_index e = ri"]
    show "filter (\<lambda>e. error_type e = Duplicate \<and> row_index e = ri) (errors (scan L sc df rep))
               = (if \<exists>rj<ri. row_key df key_cols rj = row_key df key_cols ri
                  then [\<lparr>row_index = ri, col_name = join '','' key_cols, error_type = Duplicate,
                         severity = Business, message = Msg_duplicate_key key_cols\<rparr>]
                  else [])"
      by (simp add: duplicate_defect_def)
  qed
qed

theorem C9_duplicates_witness:
  "filter (\<lambda>e. error_type e = Duplicate \<and> row_index e = 2)
          (errors (scan sample_lib sample_scanner sample_table sample_report))
   = [\<lparr>row_index = 2, col_name = ''name'', error_type = Duplicate,
        severity = Business, message = Msg_duplicate_key [''name'']\<rparr>]"
proof -
  have h: "[''name''] = present_key_columns sample_scanner sample_table"
    by code_simp
  have earlier: "\<exists>rj<2. row_key sample_table [''name''] rj = row_key sample_table [''name''] 2"
    by (rule exI [of _ 0]) (simp add: row_key_def cell_at_def sample_table_def)
  have n: "(2::nat) < length (rows sample_table)"
    by (simp add: sample_table_def)
  from C9_duplicates [OF h, of sample_lib sample_report] n earlier
  show ?thesis by simp
qed

text \<open>
  The claim as stated fails where no configured key column is a label of the table: the
  keys of rows 0 and 1 of the sample table are then the same empty tuple, and yet the scan
  holds no \<open>Duplicate\<close> record at all.
\<close>

theorem C9_as_stated_counterexample:
  "present_key_columns unkeyed_scanner sample_table = []
   \<and> row_key sample_table (present_key_columns unkeyed_scanner sample_table) 0
     = row_key sample_table (present_key_columns unkeyed_scanner sample_table) 1
   \<and> Duplicate \<notin> set (map error_type (errors (scan sample_lib unkeyed_scanner sample_table sample_report)))"
  by code_simp

subsection \<open>Cross-column constraints\<close>

lemma constraint_errors_one_mem:
  assumes "left c = Some lc" "right c = Some rc" "lc \<noteq> []" "rc \<noteq> []"
    "lc \<in> set (columns df)" "rc \<in> set (columns df)"
    "opr = (case op c of None \<Rightarrow> ''>'' | Some s \<Rightarrow> s)"
  shows "e \<in> set (constraint_errors_one L df c) \<longleftrightarrow>
         (\<exists>ri < length (rows df). e = constraint_defect ri lc opr rc \<and>
            \<not> eval_constraint (to_float L (cell_at df ri lc)) opr (to_float L (cell_at df ri rc)))"
  using assms by (auto simp: constraint_errors_one_def Let_def)

lemma constraint_errors_one_shape:
  assumes "e \<in> set (constraint_errors_one L df c)"
  shows "\<exists>lc rc. left c = Some lc \<and> right c = Some rc \<and> lc \<noteq> [] \<and> rc \<noteq> [] \<and>
           lc \<in> set (columns df) \<and> rc \<in> set (columns df)"
  using assms by (cases "left c"; cases "right c")
    (auto simp: constraint_errors_one_def Let_def split: if_splits)

lemma constraint_defect_inject:
  "constraint_defect ri lc opr rc = constraint_defect ri' lc' opr' rc' \<longleftrightarrow>
     ri = ri' \<and> lc = lc' \<and> opr = opr' \<and> rc = rc'"
  by (auto simp: constraint_defect_def)

lemma constraint_errors_mem:
  assumes "c \<in> set (constraints sc)" "left c = Some lc" "right c = Some rc" "lc \<noteq> []" "rc \<noteq> []"
    "lc \<in> set (columns df)" "rc \<in> set (columns df)"
    "opr = (case op c of None \<Rightarrow> ''>'' | Some s \<Rightarrow> s)" "ri < length (rows df)"
  shows "constraint_defect ri lc opr rc \<in> set (constraint_errors L sc df) \<longleftrightarrow>
         \<not> eval_constraint (to_float L (cell_at df ri lc)) opr (to_float L (cell_at df ri rc))"
proof
  assume "constraint_defect ri lc opr rc \<in> set (constraint_errors L sc df)"
  then obtain c' where c': "c' \<in> set (constraints sc)"
    and mem: "constraint_defect ri lc opr rc \<in> set (constraint_errors_one L df c')"
    by (auto simp: constraint_errors_def)
  from constraint_errors_one_shape [OF mem] obtain lc' rc' where
    s: "left c' = Some lc'" "right c' = Some rc'" "lc' \<noteq> []" "rc' \<noteq> []"
       "lc' \<in> set (columns df)" "rc' \<in> set (columns df)" by blast
  from mem constraint_errors_one_mem [OF s refl, of _ L]
  show "\<not> eval_constraint (to_float L (cell_at df ri lc)) opr (to_float L (cell_at df ri rc))"
    by (auto simp: constraint_defect_inject)
next
  assume "\<not> eval_constraint (to_float L (cell_at df ri lc)) opr (to_float L (cell_at df ri rc))"
  then have "constraint_defect ri lc opr rc \<in> set (constraint_errors_one L df c)"
    using constraint_errors_one_mem [OF assms(2-8), of _ L] assms(9) by auto
  then show "constraint_defect ri lc opr rc \<in> set (constraint_errors L sc df)"
    using assms(1) by (auto simp: constraint_errors_def)
qed

lemma row_get_absent: "c \<notin> set cols \<Longrightarrow> row_get cols r c = None"
proof (induction cols arbitrary: r)
  case Nil
  then show ?case by simp
next
  case (Cons k ks)
  then show ?case by (cases r) auto
qed

lemma to_float_absent: "col \<notin> set (columns df) \<Longrightarrow> to_float L (cell_at df ri col) = None"
  by (simp add: cell_at_def row_get_absent to_float_def)

lemma numeric_values_absent:
  assumes "col \<notin> set (columns df)"
  shows "numeric_values (column_floats L df col) = []"
proof -
  have "column_floats L df col = map (\<lambda>ri. None) [0..<length (rows df)]"
    using assms by (simp add: column_floats_def to_float_absent)
  then show ?thesis
    by (simp add: numeric_values_def List.map_filter_def to_float_of_float_def o_def)
qed

lemma constraint_errors_mem_any:
  assumes "c \<in> set (constraints sc)" "left c = Some lc" "right c = Some rc" "lc \<noteq> []" "rc \<noteq> []"
    "opr = (case op c of None \<Rightarrow> ''>'' | Some s \<Rightarrow> s)" "ri < length (rows df)"
  shows "constraint_defect ri lc opr rc \<in> set (constraint_errors L sc df) \<longleftrightarrow>
         \<not> eval_constraint (to_float L (cell_at df ri lc)) opr (to_float L (cell_at df ri rc))"
proof (cases "lc \<in> set (columns df) \<and> rc \<in> set (columns df)")
  case True
  then show ?thesis
    using constraint_errors_mem [where L = L and df = df, OF assms(1-5) _ _ assms(6,7)] by simp
next
  case False
  then have "to_float L (cell_at df ri lc) = None \<or> to_float L (cell_at df ri rc) = None"
    using to_float_absent [of lc df L ri] to_float_absent [of rc df L ri] by auto
  then have ev: "eval_constraint (to_float L (cell_at df ri lc)) opr (to_float L (cell_at df ri rc))"
    by (auto simp: eval_constraint_def split: option.splits)
  have "constraint_defect ri lc opr rc \<notin> set (constraint_errors L sc df)"
  proof
    assume "constraint_defect ri lc opr rc \<in> set (constraint_errors L sc df)"
    then obtain c' where c': "c' \<in> set (constraints sc)"
      and mem: "constraint_defect ri lc opr rc \<in> set (constraint_errors_one L df c')"
      by (auto simp: constraint_errors_def)
    from constraint_errors_one_shape [OF mem] obtain lc' rc' where
      s: "left c' = Some lc'" "right c' = Some rc'" "lc' \<noteq> []" "rc' \<noteq> []"
         "lc' \<in> set (columns df)" "rc' \<in> set (columns df)" by blast
    from mem constraint_errors_one_mem [OF s refl, of _ L]
    have "lc = lc' \<and> rc = rc'"
      by (auto simp: constraint_defect_inject)
    with s False show False by simp
  qed
  with ev show ?thesis by simp
qed

lemma constraint_defect_scan:
  "constraint_defect ri lc opr rc \<in> set (errors (scan L sc df rep))
   \<longleftrightarrow> constraint_defect ri lc opr rc \<in> set (constraint_errors L sc df)"
  by (auto simp: scan_errors constraint_defect_def dest: null_errors_shape type_errors_kind
          duplicate_errors_kind outlier_errors_kind pattern_errors_kind)

text \<open>
  C6. Take a configured constraint whose left and right column names are not empty and
  whose operator (\<^verbatim>\<open>">"\<close> when none is given) is one of the five comparisons, and a
  row \<open>ri\<close> of the table. If the parser of \<^verbatim>\<open>_to_float\<close> gives no number for the left
  or the right cell, the scan holds no constraint record of this constraint for \<open>ri\<close>;
  a column that is no label of the table has no cell to parse, and falls under this
  case. If the parser gives the numbers \<open>l\<close> and \<open>r\<close>, the scan holds the record if and
  only if the comparison of \<open>l\<close> with \<open>r\<close> is false.
\<close>

theorem C6_constraints:
  assumes "c \<in> set (constraints sc)"
    and "left c = Some lc" and "right c = Some rc" and "lc \<noteq> []" and "rc \<noteq> []"
    and "opr = (case op c of None \<Rightarrow> ''>'' | Some s \<Rightarrow> s)"
    and "opr \<in> {''>'', ''<'', ''>='', ''<='', ''==''}"
    and "ri < length (rows df)"
  shows "((to_float L (cell_at df ri lc) = None \<or> to_float L (cell_at df ri rc) = None) \<longrightarrow>
            constraint_defect ri lc opr rc \<notin> set (errors (scan L sc df rep)))
       \<and> (\<forall>l r. to_float L (cell_at df ri lc) = Some l \<and> to_float L (cell_at df ri rc) = Some r \<longrightarrow>
            (constraint_defect ri lc opr rc \<in> set (errors (scan L sc df rep)) \<longleftrightarrow>
               \<not> (if opr = ''>'' then pf_lt r l
                   else if opr = ''<'' then pf_lt l r
                   else if opr = ''>='' then pf_lt r l \<or> pf_eq r l
                   else if opr = ''<='' then pf_lt l r \<or> pf_eq l r
                   else pf_eq l r)))"
proof -
  note mem = constraint_errors_mem_any [OF assms(1-6) assms(8), of L]
  show ?thesis
  proof (intro conjI impI allI)
    assume "to_float L (cell_at df ri lc) = None \<or> to_float L (cell_at df ri rc) = None"
    then have "eval_constraint (to_float L (cell_at df ri lc)) opr (to_float L (cell_at df ri rc))"
      by (auto simp: eval_constraint_def split: option.splits)
    then show "constraint_defect ri lc opr rc \<notin> set (errors (scan L sc df rep))"
      by (simp add: constraint_defect_scan mem)
  next
    fix l r
    assume "to_float L (cell_at df ri lc) = Some l \<and> to_float L (cell_at df ri rc) = Some r"
    then show "constraint_defect ri lc opr rc \<in> set (errors (scan L sc df rep)) \<longleftrightarrow>
               \<not> (if opr = ''>'' then pf_lt r l
                   else if opr = ''<'' then pf_lt l r
                   else if opr = ''>='' then pf_lt r l \<or> pf_eq r l
                   else if opr = ''<='' then pf_lt l r \<or> pf_eq l r
                   else pf_eq l r)"
      using assms(7)
      by (auto simp: constraint_defect_scan mem eval_constraint_def pf_gt_def pf_ge_def pf_le_def)
  qed
qed

theorem C6_constraints_witness:
  "constraint_defect 1 ''score'' ''<='' ''max''
     \<in> set (errors (scan sample_lib sample_scanner sample_table sample_report))
   \<and> constraint_defect 3 ''score'' ''<='' ''max''
     \<notin> set (errors (scan sample_lib sample_scanner sample_table sample_report))"
proof -
  let ?c = "\<lparr>left = Some ''score'', op = Some ''<='', right = Some ''max''\<rparr>"
  have h1: "?c \<in> set (constraints sample_scanner)"
    by (simp add: sample_scanner_def new_scanner_def)
  have h8: "''<='' = (case op ?c of None \<Rightarrow> ''>'' | Some s \<Rightarrow> s)"
    by simp
  have h9: "''<='' \<in> {''>'', ''<'', ''>='', ''<='', ''==''}"
    by simp
  have r1: "(1::nat) < length (rows sample_table)" and r3: "(3::nat) < length (rows sample_table)"
    by (simp_all add: sample_table_def)
  have l1: "to_float sample_lib (cell_at sample_table 1 ''score'') = Some (Fin 12)"
    and m1: "to_float sample_lib (cell_at sample_table 1 ''max'') = Some (Fin 11)"
    and m3: "to_float sample_lib (cell_at sample_table 3 ''max'') = None"
    by code_simp+
  from C6_constraints [OF h1 _ _ _ _ h8 h9 r1, where L = sample_lib and rep = sample_report] l1 m1
  have a: "constraint_defect 1 ''score'' ''<='' ''max''
     \<in> set (errors (scan sample_lib sample_scanner sample_table sample_report))"
    by simp
  from C6_constraints [OF h1 _ _ _ _ h8 h9 r3, where L = sample_lib and rep = sample_report] m3
  have b: "constraint_defect 3 ''score'' ''<='' ''max''
     \<notin> set (errors (scan sample_lib sample_scanner sample_table sample_report))"
    by simp
  from a b show ?thesis by simp
qed

subsection \<open>Outliers\<close>

lemma outlier_errors_row_index:
  "e \<in> set (outlier_errors_row L df c lower upper ri) \<Longrightarrow>
     row_index e = ri \<and> col_name e = c \<and> error_type e = Outlier"
  by (auto simp: outlier_errors_row_def split: if_splits option.splits)

lemma outlier_errors_row_nonempty:
  "outlier_errors_row L df c (Some lo) (Some up) ri \<noteq> [] \<longleftrightarrow>
     (\<not> is_empty (cell_at df ri c) \<and>
      (\<exists>f. to_float L (cell_at df ri c) = Some f \<and> (pf_lt f lo \<or> pf_lt up f)))"
  by (cases "cell_at df ri c")
     (auto simp: outlier_errors_row_def outside_bounds_def pf_gt_def is_empty_def split: option.splits)

lemma outlier_errors_col_name: "e \<in> set (outlier_errors_col L df c) \<Longrightarrow> col_name e = c \<and> error_type e = Outlier"
  by (auto simp: outlier_errors_col_def Let_def  split: if_splits prod.splits dest: outlier_errors_row_index)

lemma outlier_scan_col:
  assumes "col \<in> set (all_outlier_cols sc)"
  shows "{e \<in> set (errors (scan L sc df rep)). error_type e = Outlier \<and> col_name e = col}
         = set (outlier_errors_col L df col)"
proof -
  have "{e \<in> set (errors (scan L sc df rep)). error_type e = Outlier \<and> col_name e = col}
        = {e \<in> set (outlier_errors L sc df). col_name e = col}"
    by (auto simp: scan_errors dest: null_errors_shape type_errors_kind duplicate_errors_kind
          outlier_errors_kind pattern_errors_kind constraint_errors_kind)
  also have "\<dots> = set (outlier_errors_col L df col)"
    using assms by (auto simp: outlier_errors_def dest: outlier_errors_col_name)
  finally show ?thesis .
qed

lemma outlier_errors_col_few:
  assumes "length (numeric_values (column_floats L df col)) < 4"
  shows "outlier_errors_col L df col = []"
  using assms by (simp add: outlier_errors_col_def outlier_bounds_iqr_def Let_def)

lemma outlier_errors_col_mem:
  assumes "col \<in> set (columns df)" and "ri < length (rows df)"
    and "numeric = numeric_values (column_floats L df col)" and "4 \<le> length numeric"
    and "q1 = quantile L numeric (1 / 4)" and "q3 = quantile L numeric (3 / 4)"
    and "iqr = pf_sub q3 q1"
    and "lower = (if pf_eq iqr (Fin 0) then q1 else pf_sub q1 (pf_scale (3 / 2) iqr))"
    and "upper = (if pf_eq iqr (Fin 0) then q3 else pf_add q3 (pf_scale (3 / 2) iqr))"
  shows "(\<exists>e \<in> set (outlier_errors_col L df col). row_index e = ri)
         \<longleftrightarrow> (\<not> is_empty (cell_at df ri col) \<and>
              (\<exists>f. to_float L (cell_at df ri col) = Some f \<and> (pf_lt f lower \<or> pf_lt upper f)))"
proof -
  have bounds: "outlier_bounds_iqr L (column_floats L df col) (3 / 2) = (Some lower, Some upper)"
    using assms(3-9) by (simp add: outlier_bounds_iqr_def Let_def)
  have "(\<exists>e \<in> set (outlier_errors_col L df col). row_index e = ri)
        \<longleftrightarrow> outlier_errors_row L df col (Some lower) (Some upper) ri \<noteq> []"
  proof
    assume "\<exists>e \<in> set (outlier_errors_col L df col). row_index e = ri"
    then obtain e rj where "e \<in> set (outlier_errors_row L df col (Some lower) (Some upper) rj)"
      and "row_index e = ri"
      using assms(1) by (auto simp: outlier_errors_col_def bounds)
    then show "outlier_errors_row L df col (Some lower) (Some upper) ri \<noteq> []"
      using outlier_errors_row_index by fastforce
  next
    assume "outlier_errors_row L df col (Some lower) (Some upper) ri \<noteq> []"
    then obtain e where e: "e \<in> set (outlier_errors_row L df col (Some lower) (Some upper) ri)"
      by (cases "outlier_errors_row L df col (Some lower) (Some upper) ri") auto
    then have "e \<in> set (outlier_errors_col L df col)"
      using assms(1,2) by (auto simp: outlier_errors_col_def bounds)
    with e show "\<exists>e \<in> set (outlier_errors_col L df col). row_index e = ri"
      using outlier_errors_row_index by blast
  qed
  then show ?thesis
    by (simp add: outlier_errors_row_nonempty)
qed

text \<open>
  C7. Take a column \<open>col\<close> of the union of the numeric and the outlier columns;
  \<open>numeric\<close> are the cells of the column that parse to a number other than NaN (none,
  when the column is no label of the table). With fewer than four of them the scan holds
  no \<open>Outlier\<close> record of the column. With four or more, the scan holds an \<open>Outlier\<close> record for row \<open>ri\<close> of the
  column if and only if the cell is not empty, parses to a number \<open>f\<close>, and \<open>f\<close> is below
  \<open>lower\<close> or above \<open>upper\<close>, where the bounds are \<open>Q1 - 1.5 IQR\<close> and
  \<open>Q3 + 1.5 IQR\<close>, and \<open>Q1\<close> and \<open>Q3\<close> themselves when \<open>IQR = 0\<close>.
\<close>

theorem C7_outliers:
  assumes "col \<in> set (all_outlier_cols sc)" and "ri < length (rows df)"
    and "numeric = numeric_values (column_floats L df col)"
    and "q1 = quantile L numeric (1 / 4)" and "q3 = quantile L numeric (3 / 4)"
    and "iqr = pf_sub q3 q1"
    and "lower = (if pf_eq iqr (Fin 0) then q1 else pf_sub q1 (pf_scale (3 / 2) iqr))"
    and "upper = (if pf_eq iqr (Fin 0) then q3 else pf_add q3 (pf_scale (3 / 2) iqr))"
  shows "(length numeric < 4 \<longrightarrow>
            filter (\<lambda>e. error_type e = Outlier \<and> col_name e = col) (errors (scan L sc df rep)) = [])
       \<and> (4 \<le> length numeric \<longrightarrow>
            (filter (\<lambda>e. error_type e = Outlier \<and> col_name e = col \<and> row_index e = ri)
                    (errors (scan L sc df rep)) \<noteq> []
             \<longleftrightarrow> (\<not> is_empty (cell_at df ri col) \<and>
                  (\<exists>f. to_float L (cell_at df ri col) = Some f \<and> (pf_lt f lower \<or> pf_lt upper f)))))"
proof (intro conjI impI)
  assume "length numeric < 4"
  then have "outlier_errors_col L df col = []"
    using assms(3) by (simp add: outlier_errors_col_few)
  with outlier_scan_col [OF assms(1), of L df rep]
  show "filter (\<lambda>e. error_type e = Outlier \<and> col_name e = col) (errors (scan L sc df rep)) = []"
    by (auto simp: filter_empty_conv)
next
  assume four: "4 \<le> length numeric"
  have present: "col \<in> set (columns df)"
  proof (rule ccontr)
    assume "col \<notin> set (columns df)"
    then have "numeric = []" using assms(3) by (simp add: numeric_values_absent)
    with four show False by simp
  qed
  have "filter (\<lambda>e. error_type e = Outlier \<and> col_name e = col \<and> row_index e = ri)
                    (errors (scan L sc df rep)) \<noteq> []
        \<longleftrightarrow> (\<exists>e \<in> set (outlier_errors_col L df col). row_index e = ri)"
    using outlier_scan_col [OF assms(1), of L df rep] by (auto simp: filter_empty_conv)
  with outlier_errors_col_mem [OF present assms(2,3) four assms(4-8)]
  show "filter (\<lambda>e. error_type e = Outlier \<and> col_name e = col \<and> row_index e = ri)
                    (errors (scan L sc df rep)) \<noteq> []
             \<longleftrightarrow> (\<not> is_empty (cell_at df ri col) \<and>
                  (\<exists>f. to_float L (cell_at df ri col) = Some f \<and> (pf_lt f lower \<or> pf_lt upper f)))"
    by simp
qed

theorem C7_outliers_witness:
  "filter (\<lambda>e. error_type e = Outlier \<and> col_name e = ''score'' \<and> row_index e = 4)
          (errors (scan sample_lib sample_scanner sample_table sample_report)) \<noteq> []
   \<and> filter (\<lambda>e. error_type e = Outlier \<and> col_name e = ''max'')
          (errors (scan sample_lib sample_scanner sample_table sample_report)) = []"
proof -
  have h1: "''score'' \<in> set (all_outlier_cols sample_scanner)"
    and k1: "''max'' \<in> set (all_outlier_cols sample_scanner)"
    by code_simp+
  have h3: "(4::nat) < length (rows sample_table)"
    by (simp add: sample_table_def)
  have enough: "4 \<le> length (numeric_values (column_floats sample_lib sample_table ''score''))"
    by code_simp
  have few: "length (numeric_values (column_floats sample_lib sample_table ''max'')) < 4"
    by code_simp
  have cell: "\<not> is_empty (cell_at sample_table 4 ''score'')"
    and val: "to_float sample_lib (cell_at sample_table 4 ''score'') = Some (Fin 100)"
    by code_simp+
  have up: "(let numeric = numeric_values (column_floats sample_lib sample_table ''score'');
                 q1 = quantile sample_lib numeric (1 / 4); q3 = quantile sample_lib numeric (3 / 4);
                 iqr = pf_sub q3 q1
             in (if pf_eq iqr (Fin 0) then q3 else pf_add q3 (pf_scale (3 / 2) iqr))) = Fin 15"
    by code_simp
  from C7_outliers [OF h1 h3 refl refl refl refl refl refl, where rep = sample_report] enough cell val up
  have a: "filter (\<lambda>e. error_type e = Outlier \<and> col_name e = ''score'' \<and> row_index e = 4)
          (errors (scan sample_lib sample_scanner sample_table sample_report)) \<noteq> []"
    by (simp add: Let_def)
  from C7_outliers [OF k1 h3 refl refl refl refl refl refl, where rep = sample_report] few
  have b: "filter (\<lambda>e. error_type e = Outlier \<and> col_name e = ''max'')
          (errors (scan sample_lib sample_scanner sample_table sample_report)) = []"
    by simp
  from a b show ?thesis by simp
qed

subsection \<open>The tallies and the summary\<close>

lemma length_by_kind:
  "length es =
     length (filter (\<lambda>e. error_type e = Null_structural) es)
   + length (filter (\<lambda>e. error_type e = Null_business) es)
   + length (filter (\<lambda>e. error_type e = Type_inconsistent) es)
   + length (filter (\<lambda>e. error_type e = Duplicate) es)
   + length (filter (\<lambda>e. error_type e = Outlier) es)
   + length (filter (\<lambda>e. error_type e = Pattern_mismatch) es)
   + length (filter (\<lambda>e. error_type e = Constraint_violation) es)"
proof (induction es)
  case Nil
  then show ?case by simp
next
  case (Cons e es)
  then show ?case by (cases "error_type e") simp_all
qed

lemma scan_severity:
  assumes "e \<in> set (errors (scan L sc df rep))"
  shows "severity e = Structural \<longleftrightarrow> error_type e = Null_structural"
proof -
  from assms consider "e \<in> set (null_errors df rep)" | "e \<in> set (type_errors_of L sc df)"
    | "e \<in> set (duplicate_errors sc df)" | "e \<in> set (outlier_errors L sc df)"
    | "e \<in> set (pattern_errors L sc df)" | "e \<in> set (constraint_errors L sc df)"
    by (auto simp: scan_errors)
  then show ?thesis
  proof cases
    case 1
    from null_errors_shape [OF 1] show ?thesis by simp
  qed (auto dest: type_errors_kind duplicate_errors_kind
          outlier_errors_kind pattern_errors_kind constraint_errors_kind)
qed

lemma summary_parts_filter:
  "summary_part n1 k1 @ summary_part n2 k2 @ summary_part n3 k3 @ summary_part n4 k4
     @ summary_part n5 k5 @ summary_part n6 k6 @ summary_part n7 k7
   = filter (\<lambda>p. 0 < fst p) [(n1, k1), (n2, k2), (n3, k3), (n4, k4), (n5, k5), (n6, k6), (n7, k7)]"
  by (simp add: summary_part_def)

lemma counts_scan:
  "counts (scan L sc df rep) =
     \<lparr>structural_nulls = count_where (\<lambda>e. severity e = Structural) (errors (scan L sc df rep)),
      business_nulls = count_where (\<lambda>e. error_type e = Null_business) (errors (scan L sc df rep)),
      type_errors = count_where (\<lambda>e. error_type e = Type_inconsistent) (errors (scan L sc df rep)),
      duplicates = count_where (\<lambda>e. error_type e = Duplicate) (errors (scan L sc df rep)),
      outliers = count_where (\<lambda>e. error_type e = Outlier) (errors (scan L sc df rep)),
      cnt_pattern_mismatch = count_where (\<lambda>e. error_type e = Pattern_mismatch) (errors (scan L sc df rep)),
      cnt_constraint_violation = count_where (\<lambda>e. error_type e = Constraint_violation) (errors (scan L sc df rep)),
      total = length (errors (scan L sc df rep))\<rparr>"
  by (simp add: scan_def summarise_def Let_def)

lemma summary_scan:
  "summary (scan L sc df rep) =
     (let c = counts (scan L sc df rep);
          parts = filter (\<lambda>p. 0 < fst p)
                    [(structural_nulls c, Null_structural), (business_nulls c, Null_business),
                     (type_errors c, Type_inconsistent), (duplicates c, Duplicate),
                     (outliers c, Outlier), (cnt_pattern_mismatch c, Pattern_mismatch),
                     (cnt_constraint_violation c, Constraint_violation)]
      in if parts = [] then Nothing_found else Found parts)"
  unfolding scan_def summarise_def Let_def summary_parts_filter by simp

text \<open>
  C10. In the manifest of every scan, \<open>total\<close> is the length of the list of records and
  the sum of the seven tallies, and the summary names exactly the kinds with a tally other
  than zero, each with its tally and in the fixed order, or says that nothing was found
  when all seven are zero.
\<close>

theorem C10_counts_consistent:
  "total (counts (scan L sc df rep)) = length (errors (scan L sc df rep))
   \<and> total (counts (scan L sc df rep)) =
       structural_nulls (counts (scan L sc df rep)) + business_nulls (counts (scan L sc df rep))
     + type_errors (counts (scan L sc df rep)) + duplicates (counts (scan L sc df rep))
     + outliers (counts (scan L sc df rep)) + cnt_pattern_mismatch (counts (scan L sc df rep))
     + cnt_constraint_violation (counts (scan L sc df rep))
   \<and> summary (scan L sc df rep) =
       (let c = counts (scan L sc df rep);
            parts = filter (\<lambda>p. 0 < fst p)
                      [(structural_nulls c, Null_structural), (business_nulls c, Null_business),
                       (type_errors c, Type_inconsistent), (duplicates c, Duplicate),
                       (outliers c, Outlier), (cnt_pattern_mismatch c, Pattern_mismatch),
                       (cnt_constraint_violation c, Constraint_violation)]
        in if parts = [] then Nothing_found else Found parts)"
proof (intro conjI)
  show "total (counts (scan L sc df rep)) = length (errors (scan L sc df rep))"
    by (simp add: counts_scan)
next
  let ?es = "errors (scan L sc df rep)"
  have "filter (\<lambda>e. severity e = Structural) ?es = filter (\<lambda>e. error_type e = Null_structural) ?es"
    by (rule filter_cong) (auto simp: scan_severity)
  then have "count_where (\<lambda>e. severity e = Structural) ?es
             = length (filter (\<lambda>e. error_type e = Null_structural) ?es)"
    by (simp add: count_where_def)
  then show "total (counts (scan L sc df rep)) =
       structural_nulls (counts (scan L sc df rep)) + business_nulls (counts (scan L sc df rep))
     + type_errors (counts (scan L sc df rep)) + duplicates (counts (scan L sc df rep))
     + outliers (counts (scan L sc df rep)) + cnt_pattern_mismatch (counts (scan L sc df rep))
     + cnt_constraint_violation (counts (scan L sc df rep))"
    using length_by_kind [of ?es] by (simp add: counts_scan count_where_def)
next
  show "summary (scan L sc df rep) =
       (let c = counts (scan L sc df rep);
            parts = filter (\<lambda>p. 0 < fst p)
                      [(structural_nulls c, Null_structural), (business_nulls c, Null_business),
                       (type_errors c, Type_inconsistent), (duplicates c, Duplicate),
                       (outliers c, Outlier), (cnt_pattern_mismatch c, Pattern_mismatch),
                       (cnt_constraint_violation c, Constraint_violation)]
        in if parts = [] then Nothing_found else Found parts)"
    by (rule summary_scan)
qed

theorem C10_counts_consistent_witness:
  "counts (scan sample_lib sample_scanner sample_table sample_report)
   = \<lparr>structural_nulls = 2, business_nulls = 1, type_errors = 1, duplicates = 1, outliers = 1,
      cnt_pattern_mismatch = 0, cnt_constraint_violation = 1, total = 7\<rparr>
   \<and> summary (scan sample_lib sample_scanner sample_table sample_report)
   = Found [(2, Null_structural), (1, Null_business), (1, Type_inconsistent), (1, Duplicate),
            (1, Outlier), (1, Constraint_violation)]"
proof -
  have c: "counts (scan sample_lib sample_scanner sample_table sample_report)
   = \<lparr>structural_nulls = 2, business_nulls = 1, type_errors = 1, duplicates = 1, outliers = 1,
      cnt_pattern_mismatch = 0, cnt_constraint_violation = 1, total = 7\<rparr>"
    by code_simp
  from C10_counts_consistent [of sample_lib sample_scanner sample_table sample_report]
  show ?thesis
    by (simp add: c Let_def)
qed

section \<open>Properties of the merge engine\<close>

subsection \<open>Frames\<close>

lemma row_get_self:
  "distinct cs \<Longrightarrow> length r = length cs \<Longrightarrow> map (row_get cs r) cs = r"
proof (induction cs arbitrary: r)
  case Nil
  then show ?case by simp
next
  case (Cons k ks)
  then obtain v vs where r: "r = v # vs" by (cases r) auto
  have "map (\<lambda>a. if k = a then v else row_get ks vs a) ks = map (row_get ks vs) ks"
    using Cons.prems(1) by (intro map_cong) auto
  with Cons r show ?case by simp
qed

lemma strip_primary_key_columns_shape:
  "strip_primary_key_columns d key_columns = Inr s \<Longrightarrow>
     columns s = columns d \<and> length (rows s) = length (rows d)"
proof (induction key_columns arbitrary: d)
  case Nil
  then show ?case by simp
next
  case (Cons col key_columns)
  show ?case
  proof (cases "col \<in> set (columns d)")
    case False
    with Cons show ?thesis by simp
  next
    case True
    with Cons.prems have one: "count_list (columns d) col = 1"
      by (auto split: if_splits)
    let ?d = "d\<lparr>rows := map (\<lambda>r. map (\<lambda>cv. if fst cv = col then strip_cell (snd cv) else snd cv)
                                        (zip (columns d) r)) (rows d)\<rparr>"
    from Cons.prems True one have "strip_primary_key_columns ?d key_columns = Inr s"
      by simp
    from Cons.IH [OF this] show ?thesis by simp
  qed
qed

lemma reindex_shape:
  "reindex d cols = Inr a \<Longrightarrow> columns a = cols \<and> length (rows a) = length (rows d)"
  by (auto simp: reindex_def split: if_splits)

lemma reindex_distinct:
  "distinct (columns d) \<Longrightarrow> \<exists>a. reindex d cols = Inr a"
  by (simp add: reindex_def)

lemma length_concat_rows:
  "length (concat (map (\<lambda>d. map (f d) (rows d)) dfs)) = sum_list (map (\<lambda>d. length (rows d)) dfs)"
  by (induction dfs) auto

lemma concat_frames_rows:
  "concat_frames dfs = Inr result \<Longrightarrow> length (rows result) = sum_list (map (\<lambda>d. length (rows d)) dfs)"
  by (auto simp: concat_frames_def length_concat length_concat_rows o_def split: if_splits)

lemma concat_frames_same_columns:
  "list_all (\<lambda>d. columns d = cols) dfs \<Longrightarrow> dfs \<noteq> [] \<Longrightarrow> \<exists>result. concat_frames dfs = Inr result \<and> columns result = cols"
  by (cases dfs) (auto simp: concat_frames_def list_all_iff)

lemma keep_first_keys:
  "distinct (map key (keep_first key rs seen)) \<and> key ` set (keep_first key rs seen) \<inter> seen = {}"
proof (induction rs arbitrary: seen)
  case Nil
  then show ?case by simp
next
  case (Cons r rs)
  show ?case
  proof (cases "key r \<in> seen")
    case True
    with Cons.IH [of seen] show ?thesis by simp
  next
    case False
    with Cons.IH [of "insert (key r) seen"] show ?thesis by auto
  qed
qed

lemma filter_key_le_one:
  "distinct (map key xs) \<Longrightarrow> length (filter (\<lambda>r. key r = k) xs) \<le> 1"
proof (induction xs)
  case Nil
  then show ?case by simp
next
  case (Cons a xs)
  show ?case
  proof (cases "key a = k")
    case True
    from Cons.prems have "key a \<notin> key ` set xs" by simp
    with True have "\<forall>x \<in> set xs. key x \<noteq> k" by (metis imageI)
    then have "filter (\<lambda>r. key r = k) xs = []" by (simp add: filter_empty_conv)
    with True show ?thesis by simp
  next
    case False
    with Cons show ?thesis by simp
  qed
qed

lemma left_merge_rows:
  assumes "distinct (map (key_of (columns right_df) on) (rows right_df))"
  shows "length (rows (left_merge left_df right_df on)) = length (rows left_df)"
proof -
  have one: "length (case filter (\<lambda>r. key_of (columns right_df) on r = k) (rows right_df) of
                       [] \<Rightarrow> [a]
                     | m # ms \<Rightarrow> map f (m # ms)) = 1" for k and a :: "cell list" and f
    using filter_key_le_one [OF assms, of k]
    by (cases "filter (\<lambda>r. key_of (columns right_df) on r = k) (rows right_df)") auto
  show ?thesis
    unfolding left_merge_def Let_def
    by (simp add: length_concat o_def one sum_list_triv)
qed

lemma drop_duplicates_keys:
  "distinct (map (key_of (columns (drop_duplicates d on)) on) (rows (drop_duplicates d on)))"
  using keep_first_keys [of "key_of (columns d) on" "rows d" "{}"]
  by (simp add: drop_duplicates_def)

lemma join_step_rows:
  "length (rows (left_frame (join_step first kcu idx right_df js))) = length (rows (left_frame js))"
  by (simp add: join_step_def Let_def drop_columns_def left_merge_rows [OF drop_duplicates_keys])

lemma join_loop_rows:
  "length (rows (left_frame (join_loop first kcu idx rights js))) = length (rows (left_frame js))"
  by (induction rights arbitrary: idx js) (simp_all add: join_step_rows)

text \<open>
  C8. Aligning a table to a baseline that is already its own column sequence gives the
  table back, column for column and row for row. The model is functional: \<open>reindex\<close>
  yields a new frame and the frame it was given is a value that nothing can change, as in
  the code, where \<^verbatim>\<open>reindex\<close> returns a new object and \<^verbatim>\<open>df\<close> is not written to again.
\<close>

theorem C8_align_identity:
  assumes "wf_df df" and "columns df = baseline"
  shows "reindex df baseline = Inr df"
proof (cases "distinct (columns df)")
  case True
  have "map (\<lambda>r. map (row_get (columns df) r) (columns df)) (rows df) = rows df"
    using assms(1) True by (intro map_idI) (simp add: wf_df_def list_all_iff row_get_self)
  with True assms(2) show ?thesis
    by (simp add: reindex_def)
next
  case False
  with assms(2) show ?thesis
    by (simp add: reindex_def)
qed

theorem C8_align_identity_witness:
  "reindex \<lparr>columns = [''a'', ''b''], rows = [[Some ''1'', Some ''x''], [None, Some ''y'']]\<rparr> [''a'', ''b'']
   = Inr \<lparr>columns = [''a'', ''b''], rows = [[Some ''1'', Some ''x''], [None, Some ''y'']]\<rparr>"
  by (rule C8_align_identity) (simp_all add: wf_df_def)

subsection \<open>The loop over the files\<close>

lemma process_file_later:
  assumes "process_file rd keys incr i fp st = Continue st'" and "0 < i"
  shows "cols_to_use st' = cols_to_use st \<and> st_reference_columns st' = st_reference_columns st \<and>
         (\<exists>e. st_tables st' = st_tables st @ [e] \<and> match_rate e = None \<and>
           ((status e \<noteq> Ok \<and> merged_dfs st' = merged_dfs st) \<or>
            (status e = Ok \<and> (\<exists>a. merged_dfs st' = merged_dfs st @ [a] \<and>
                row_count e = length (rows a) \<and> cols_to_use st = Some (columns a)))))"
proof (cases "rd fp")
  case (Inl t)
  with assms show ?thesis
    by (auto simp: process_file_def new_entry_def)
next
  case (Inr d0)
  from assms Inr obtain d where
    d: "(if keys \<noteq> [] then strip_primary_key_columns d0 keys else Inr d0) = Inr d"
    by (cases "if keys \<noteq> [] then strip_primary_key_columns d0 keys else Inr d0")
       (auto simp: process_file_def)
  from assms Inr d obtain cols where cols: "cols_to_use st = Some cols"
    by (cases "cols_to_use st") (auto simp: process_file_def Let_def)
  show ?thesis
  proof (cases "set (columns d) \<inter> set cols = {}")
    case True
    with assms Inr d cols show ?thesis
      by (auto simp: process_file_def Let_def new_entry_def)
  next
    case False
    with assms Inr d cols obtain a where a: "reindex d cols = Inr a"
      by (cases "reindex d cols") (auto simp: process_file_def Let_def)
    from reindex_shape [OF a] assms Inr d cols False a show ?thesis
      by (auto simp: process_file_def Let_def new_entry_def)
  qed
qed

lemma process_file_later_not_returned:
  "0 < i \<Longrightarrow> process_file rd keys incr i fp st \<noteq> Returned cs"
  by (auto simp: process_file_def Let_def split: sum.splits option.splits)

lemma merge_loop_later:
  assumes "merge_loop rd keys incr i fps st = Continue st'" and "0 < i"
  shows "cols_to_use st' = cols_to_use st \<and> st_reference_columns st' = st_reference_columns st \<and>
         (\<exists>es frames. st_tables st' = st_tables st @ es \<and> merged_dfs st' = merged_dfs st @ frames \<and>
            length es = length fps \<and>
            map (\<lambda>a. length (rows a)) frames = map row_count (filter (\<lambda>e. status e = Ok) es) \<and>
            (\<forall>a \<in> set frames. cols_to_use st = Some (columns a)) \<and>
            (\<forall>e \<in> set es. match_rate e = None))"
  using assms
proof (induction fps arbitrary: i st)
  case Nil
  then show ?case by simp
next
  case (Cons fp fps)
  from Cons.prems obtain st1 where
    st1: "process_file rd keys incr i fp st = Continue st1"
    and rest: "merge_loop rd keys incr (Suc i) fps st1 = Continue st'"
    by (cases "process_file rd keys incr i fp st") auto
  from process_file_later [OF st1 Cons.prems(2)] obtain e where
    c1: "cols_to_use st1 = cols_to_use st" "st_reference_columns st1 = st_reference_columns st"
    and t1: "st_tables st1 = st_tables st @ [e]" "match_rate e = None"
    and m1: "(status e \<noteq> Ok \<and> merged_dfs st1 = merged_dfs st) \<or>
            (status e = Ok \<and> (\<exists>a. merged_dfs st1 = merged_dfs st @ [a] \<and>
                row_count e = length (rows a) \<and> cols_to_use st = Some (columns a)))"
    by blast
  from Cons.IH [OF rest] obtain es frames where
    c2: "cols_to_use st' = cols_to_use st1" "st_reference_columns st' = st_reference_columns st1"
    and t2: "st_tables st' = st_tables st1 @ es" "merged_dfs st' = merged_dfs st1 @ frames"
      "length es = length fps"
      "map (\<lambda>a. length (rows a)) frames = map row_count (filter (\<lambda>e. status e = Ok) es)"
      "\<forall>a \<in> set frames. cols_to_use st1 = Some (columns a)"
      "\<forall>e \<in> set es. match_rate e = None"
    by auto
  from m1 show ?case
  proof
    assume "status e \<noteq> Ok \<and> merged_dfs st1 = merged_dfs st"
    with c1 c2 t1 t2 show ?thesis
      by (intro conjI exI [of _ "e # es"] exI [of _ frames]) auto
  next
    assume "status e = Ok \<and> (\<exists>a. merged_dfs st1 = merged_dfs st @ [a] \<and>
                row_count e = length (rows a) \<and> cols_to_use st = Some (columns a))"
    then obtain a where "status e = Ok" "merged_dfs st1 = merged_dfs st @ [a]"
      "row_count e = length (rows a)" "cols_to_use st = Some (columns a)" by blast
    with c1 c2 t1 t2 show ?thesis
      by (intro conjI exI [of _ "e # es"] exI [of _ "a # frames"]) auto
  qed
qed

lemma merge_loop_later_not_returned:
  "0 < i \<Longrightarrow> merge_loop rd keys incr i fps st \<noteq> Returned cs"
proof (induction fps arbitrary: i st)
  case Nil
  then show ?case by simp
next
  case (Cons fp fps)
  then show ?case
    using process_file_later_not_returned [of i rd keys incr fp st]
    by (cases "process_file rd keys incr i fp st") auto
qed

lemma process_file_first:
  assumes "process_file rd keys incr 0 fp st = Continue st'"
  shows "(\<exists>t. rd fp = Inl t \<and> cols_to_use st' = cols_to_use st \<and> merged_dfs st' = merged_dfs st \<and>
              st_reference_columns st' = st_reference_columns st \<and>
              (\<exists>e. st_tables st' = st_tables st @ [e] \<and> status e = Read_error \<and> match_rate e = None))
       \<or> (\<exists>d cols kept e. rd fp = Inr d \<and> distinct (columns d) \<and>
              cols = (case cols_to_use st of None \<Rightarrow> columns d
                      | Some cs \<Rightarrow> if cs = [] then columns d else cs) \<and>
              cols_to_use st' = Some cols \<and> st_reference_columns st' = cols \<and>
              merged_dfs st' = merged_dfs st @ [kept] \<and>
              length (rows kept) = length (rows d) \<and>
              columns kept = (if keys \<noteq> [] \<and> incr then columns d else cols) \<and>
              st_tables st' = st_tables st @ [e] \<and> status e = Ok \<and>
              row_count e = length (rows d) \<and> match_rate e = None)"
proof (cases "rd fp")
  case (Inl t)
  with assms show ?thesis
    by (auto simp: process_file_def new_entry_def)
next
  case (Inr d0)
  from assms Inr obtain d where
    d: "(if keys \<noteq> [] then strip_primary_key_columns d0 keys else Inr d0) = Inr d"
    by (cases "if keys \<noteq> [] then strip_primary_key_columns d0 keys else Inr d0")
       (auto simp: process_file_def)
  then have shape: "columns d = columns d0 \<and> length (rows d) = length (rows d0)"
    by (auto split: if_splits dest: strip_primary_key_columns_shape)
  from assms Inr d have dist: "distinct (columns d)"
    by (auto simp: process_file_def Let_def split: if_splits)
  let ?cols = "case cols_to_use st of None \<Rightarrow> columns d | Some cs \<Rightarrow> if cs = [] then columns d else cs"
  from assms Inr d dist obtain kept where
    kept: "(if keys \<noteq> [] \<and> incr then Inr d else reindex d ?cols) = Inr kept"
    by (cases "if keys \<noteq> [] \<and> incr then Inr d else reindex d ?cols")
       (auto simp: process_file_def Let_def)
  then have kshape: "length (rows kept) = length (rows d) \<and>
                      columns kept = (if keys \<noteq> [] \<and> incr then columns d else ?cols)"
    by (auto split: if_splits dest: reindex_shape)
  let ?e = "(new_entry fp)\<lparr>row_count := length (rows d),
                missing_columns := filter (\<lambda>c. c \<notin> set (columns d)) ?cols,
                extra_columns := filter (\<lambda>c. c \<notin> set ?cols) (columns d)\<rparr>"
  have step: "process_file rd keys incr 0 fp st =
        Continue (st\<lparr>cols_to_use := Some ?cols, st_reference_columns := ?cols,
                     merged_dfs := merged_dfs st @ [kept], st_tables := st_tables st @ [?e]\<rparr>)"
    unfolding process_file_def Inr sum.case d Let_def using dist kept by simp
  with assms have st': "st' = st\<lparr>cols_to_use := Some ?cols, st_reference_columns := ?cols,
                     merged_dfs := merged_dfs st @ [kept], st_tables := st_tables st @ [?e]\<rparr>"
    by simp
  have "rd fp = Inr d0 \<and> distinct (columns d0) \<and>
          cols_to_use st' = Some ?cols \<and> st_reference_columns st' = ?cols \<and>
          merged_dfs st' = merged_dfs st @ [kept] \<and>
          length (rows kept) = length (rows d0) \<and>
          columns kept = (if keys \<noteq> [] \<and> incr then columns d0 else ?cols) \<and>
          st_tables st' = st_tables st @ [?e] \<and> status ?e = Ok \<and>
          row_count ?e = length (rows d0) \<and> match_rate ?e = None"
    using Inr dist shape kshape by (simp add: st' new_entry_def)
  then have "\<exists>d cols kept e. rd fp = Inr d \<and> distinct (columns d) \<and>
              cols = (case cols_to_use st of None \<Rightarrow> columns d
                      | Some cs \<Rightarrow> if cs = [] then columns d else cs) \<and>
              cols_to_use st' = Some cols \<and> st_reference_columns st' = cols \<and>
              merged_dfs st' = merged_dfs st @ [kept] \<and>
              length (rows kept) = length (rows d) \<and>
              columns kept = (if keys \<noteq> [] \<and> incr then columns d else cols) \<and>
              st_tables st' = st_tables st @ [e] \<and> status e = Ok \<and>
              row_count e = length (rows d) \<and> match_rate e = None"
    using shape
    by - (rule exI [of _ d0], rule exI [of _ ?cols], rule exI [of _ kept], rule exI [of _ ?e],
          simp split: option.splits)
  then show ?thesis ..
qed

lemma process_file_first_returned:
  assumes "process_file rd keys incr 0 fp st = Returned cs"
  shows "\<exists>d. rd fp = Inr d \<and> \<not> distinct (columns d)"
proof (cases "rd fp")
  case (Inl t)
  with assms show ?thesis by (simp add: process_file_def)
next
  case (Inr d0)
  from assms Inr obtain d where
    d: "(if keys \<noteq> [] then strip_primary_key_columns d0 keys else Inr d0) = Inr d"
    by (cases "if keys \<noteq> [] then strip_primary_key_columns d0 keys else Inr d0")
       (auto simp: process_file_def)
  then have shape: "columns d = columns d0"
    by (auto split: if_splits dest: strip_primary_key_columns_shape)
  from assms Inr d have "\<not> distinct (columns d)"
    by (auto simp: process_file_def Let_def split: if_splits sum.splits)
  with Inr shape show ?thesis by simp
qed

lemma finish_merge_nothing_kept:
  "merged_dfs st = [] \<Longrightarrow>
     finish_merge keys report0 st = Inr (empty_df, (report_of report0 st)\<lparr>merged_row_count := 0\<rparr>)"
  by (simp add: finish_merge_def report_of_def)

lemma finish_merge_join:
  assumes "merged_dfs st = first # others" and "keys \<noteq> []"
    and "filter (\<lambda>c. c \<in> set (columns first)) keys \<noteq> []"
  shows "finish_merge keys report0 st =
     (let js = join_loop first (filter (\<lambda>c. c \<in> set (columns first)) keys) 1 others
                 \<lparr>left_frame = first, js_tables = st_tables st, js_warning = merge_warning report0\<rparr>
      in case reindex (left_frame js) (st_reference_columns st) of
           Inl err \<Rightarrow> Inl err
         | Inr result \<Rightarrow>
             Inr (result, (report_of report0 st)\<lparr>tables := js_tables js, merge_warning := js_warning js,
                                               merged_row_count := length (rows result)\<rparr>))"
  using assms by (simp add: finish_merge_def report_of_def Let_def split: sum.splits)

lemma finish_merge_stack:
  assumes "merged_dfs st = first # others"
    and "keys = [] \<or> filter (\<lambda>c. c \<in> set (columns first)) keys = []"
  shows "finish_merge keys report0 st =
     (case concat_frames (first # others) of
        Inl err \<Rightarrow> Inl err
      | Inr result \<Rightarrow> Inr (result, (report_of report0 st)\<lparr>merged_row_count := length (rows result)\<rparr>))"
  using assms by (auto simp: finish_merge_def report_of_def Let_def split: sum.splits)

lemma finish_merge_report:
  assumes "finish_merge keys report0 st = Inr (df, rep)"
  shows "error rep = error report0 \<and> reference_columns rep = st_reference_columns st
         \<and> reference_file rep = reference_file report0"
proof (cases "merged_dfs st")
  case Nil
  with assms show ?thesis
    by (auto simp: finish_merge_nothing_kept report_of_def)
next
  case (Cons first others)
  show ?thesis
  proof (cases "keys = [] \<or> filter (\<lambda>c. c \<in> set (columns first)) keys = []")
    case True
    from assms show ?thesis
      unfolding finish_merge_stack [OF Cons True]
      by (auto simp: report_of_def split: sum.splits)
  next
    case False
    then have k: "keys \<noteq> []" "filter (\<lambda>c. c \<in> set (columns first)) keys \<noteq> []" by auto
    from assms show ?thesis
      unfolding finish_merge_join [OF Cons k] Let_def
      by (auto simp: report_of_def split: sum.splits)
  qed
qed

lemma finish_merge_rows:
  assumes "finish_merge keys report0 st = Inr (df, rep)"
  shows "(merged_dfs st = [] \<longrightarrow> df = empty_df \<and> tables rep = st_tables st)
       \<and> (\<forall>first others. merged_dfs st = first # others \<longrightarrow>
            (if keys \<noteq> [] \<and> (\<exists>c \<in> set keys. c \<in> set (columns first))
             then length (rows df) = length (rows first)
             else length (rows df) = sum_list (map (\<lambda>a. length (rows a)) (merged_dfs st))
                  \<and> tables rep = st_tables st))"
proof (cases "merged_dfs st")
  case Nil
  with assms show ?thesis
    by (auto simp: finish_merge_nothing_kept report_of_def)
next
  case (Cons first others)
  have kcu: "filter (\<lambda>c. c \<in> set (columns first)) keys \<noteq> [] \<longleftrightarrow> (\<exists>c \<in> set keys. c \<in> set (columns first))"
    by (auto simp: filter_empty_conv)
  show ?thesis
  proof (cases "keys \<noteq> [] \<and> (\<exists>c \<in> set keys. c \<in> set (columns first))")
    case True
    then have k: "keys \<noteq> []" "filter (\<lambda>c. c \<in> set (columns first)) keys \<noteq> []"
      using kcu by auto
    let ?js = "join_loop first (filter (\<lambda>c. c \<in> set (columns first)) keys) 1 others
              \<lparr>left_frame = first, js_tables = st_tables st, js_warning = merge_warning report0\<rparr>"
    from assms obtain result where
      r: "reindex (left_frame ?js) (st_reference_columns st) = Inr result" and "df = result"
      unfolding finish_merge_join [OF Cons k] Let_def
      by (auto split: sum.splits)
    with reindex_shape [OF r] True Cons show ?thesis
      by (simp add: join_loop_rows)
  next
    case False
    then have k: "keys = [] \<or> filter (\<lambda>c. c \<in> set (columns first)) keys = []"
      using kcu by auto
    from assms obtain result where
      r: "concat_frames (first # others) = Inr result" and "df = result" and "tables rep = st_tables st"
      unfolding finish_merge_stack [OF Cons k]
      by (auto simp: report_of_def split: sum.splits)
    with concat_frames_rows [OF r] False Cons show ?thesis
      by auto
  qed
qed

subsection \<open>Fatal errors\<close>

lemma merge_and_report_unfold:
  "merge_and_report rd (fp0 # fps) baseline incr keys =
     (case process_file rd keys incr 0 fp0 (initial_state rd (fp0 # fps) baseline incr) of
        Raised err \<Rightarrow> Inl err
      | Returned cs \<Rightarrow>
          Inr (empty_df, (initial_report fp0)\<lparr>error := Some Baseline_duplicate_columns,
                                               reference_columns := cs\<rparr>)
      | Continue st1 \<Rightarrow>
          (case merge_loop rd keys incr 1 fps st1 of
             Raised err \<Rightarrow> Inl err
           | Returned cs \<Rightarrow>
               Inr (empty_df, (initial_report fp0)\<lparr>error := Some Baseline_duplicate_columns,
                                                    reference_columns := cs\<rparr>)
           | Continue st \<Rightarrow> finish_merge keys (initial_report fp0) st))"
  by (simp add: merge_and_report_def split: loop_result.splits)

text \<open>What a returning merge of a non-empty list went through.\<close>

lemma merge_and_report_returns:
  assumes "merge_and_report rd (fp0 # fps) baseline incr keys = Inr (df, rep)"
  shows "(\<exists>cs. process_file rd keys incr 0 fp0 (initial_state rd (fp0 # fps) baseline incr) = Returned cs
            \<and> df = empty_df \<and> error rep = Some Baseline_duplicate_columns)
       \<or> (\<exists>st1 st. process_file rd keys incr 0 fp0 (initial_state rd (fp0 # fps) baseline incr)
                      = Continue st1
            \<and> merge_loop rd keys incr 1 fps st1 = Continue st
            \<and> finish_merge keys (initial_report fp0) st = Inr (df, rep))"
proof (cases "process_file rd keys incr 0 fp0 (initial_state rd (fp0 # fps) baseline incr)")
  case (Raised err)
  with assms show ?thesis by (simp add: merge_and_report_unfold)
next
  case (Returned cs)
  with assms show ?thesis by (auto simp: merge_and_report_unfold)
next
  case (Continue st1)
  show ?thesis
  proof (cases "merge_loop rd keys incr 1 fps st1")
    case (Raised err)
    with assms Continue show ?thesis by (simp add: merge_and_report_unfold)
  next
    case (Returned cs)
    then show ?thesis using merge_loop_later_not_returned [of 1 rd keys incr fps st1 cs] by simp
  next
    case c2: (Continue st)
    with assms Continue show ?thesis by (simp add: merge_and_report_unfold)
  qed
qed

lemma initial_state_empty:
  "st_tables (initial_state rd ps b incr) = [] \<and> merged_dfs (initial_state rd ps b incr) = []"
  by (simp add: initial_state_def Let_def)

lemma process_file_later_total:
  assumes "cols_to_use st = Some cols" and "0 < i"
    and "\<And>d. rd fp = Inr d \<Longrightarrow> distinct (columns d)"
  shows "\<exists>st'. process_file rd [] incr i fp st = Continue st'"
proof (cases "rd fp")
  case (Inl t)
  then show ?thesis by (simp add: process_file_def)
next
  case (Inr d)
  with assms(3) have "distinct (columns d)" by simp
  then obtain a where "reindex d cols = Inr a"
    using reindex_distinct by blast
  with Inr assms(1,2) show ?thesis
    by (simp add: process_file_def Let_def)
qed

lemma merge_loop_later_total:
  assumes "cols_to_use st = Some cols" and "0 < i"
    and "\<forall>fp \<in> set fps. \<forall>d. rd fp = Inr d \<longrightarrow> distinct (columns d)"
  shows "\<exists>st'. merge_loop rd [] incr i fps st = Continue st'"
  using assms
proof (induction fps arbitrary: i st)
  case Nil
  then show ?case by simp
next
  case (Cons fp fps)
  from process_file_later_total [OF Cons.prems(1,2), of rd fp incr] Cons.prems(3)
  obtain st1 where st1: "process_file rd [] incr i fp st = Continue st1" by auto
  from process_file_later [OF st1 Cons.prems(2)] Cons.prems(1)
  have "cols_to_use st1 = Some cols" by simp
  from Cons.IH [OF this, of "Suc i"] Cons.prems(3) st1 show ?case by simp
qed

lemma stack_merge_returns:
  assumes "rd fp0 = Inr d0"
    and "\<forall>fp \<in> set fps. \<forall>d. rd fp = Inr d \<longrightarrow> distinct (columns d)"
  shows "\<exists>df rep. merge_and_report rd (fp0 # fps) baseline incr [] = Inr (df, rep)"
proof (cases "distinct (columns d0)")
  case False
  with assms(1) have "process_file rd [] incr 0 fp0 (initial_state rd (fp0 # fps) baseline incr)
                      = Returned (columns d0)"
    by (simp add: process_file_def Let_def)
  then show ?thesis by (simp add: merge_and_report_unfold)
next
  case True
  let ?init = "initial_state rd (fp0 # fps) baseline incr"
  let ?cols = "case cols_to_use ?init of None \<Rightarrow> columns d0
               | Some cs \<Rightarrow> if cs = [] then columns d0 else cs"
  from True obtain kept where kept: "reindex d0 ?cols = Inr kept"
    using reindex_distinct by blast
  with assms(1) True obtain st1 where
    st1: "process_file rd [] incr 0 fp0 ?init = Continue st1"
    by (simp add: process_file_def Let_def)
  from process_file_first [OF st1] assms(1) kept obtain k where
    c1: "cols_to_use st1 = Some ?cols" and m1: "merged_dfs st1 = [k]" and k: "columns k = ?cols"
    by (auto simp: initial_state_empty)
  from merge_loop_later_total [OF c1 _ assms(2), of 1 incr] obtain st where
    st: "merge_loop rd [] incr 1 fps st1 = Continue st" by auto
  from merge_loop_later [OF st] c1 m1 obtain frames where
    m: "merged_dfs st = k # frames" and f: "\<forall>a \<in> set frames. columns a = ?cols"
    by auto
  from k f have "list_all (\<lambda>d. columns d = ?cols) (k # frames)"
    by (simp add: list_all_iff)
  from concat_frames_same_columns [OF this] obtain result where
    "concat_frames (k # frames) = Inr result" by auto
  then have "\<exists>df rep. finish_merge [] (initial_report fp0) st = Inr (df, rep)"
    by (simp add: finish_merge_stack [OF m])
  with st1 st show ?thesis by (simp add: merge_and_report_unfold)
qed

text \<open>
  C2, as amended. Whenever \<^verbatim>\<open>merge_and_report\<close> returns, the report carries a top-level
  error exactly when the file list is empty or the first file is readable and has
  duplicate column names, and the merged table is then empty; in every other returning
  case the report has no top-level error. A first file that cannot be read is recorded as
  a \<open>Read_error\<close> entry like any other and sets no error. The function returns for the empty
  list, and under the stack strategy whenever the first file is readable and the later
  readable files have unique column names.
\<close>

theorem C2_fatal_errors:
  "(\<forall>df rep. merge_and_report rd file_paths baseline incr keys = Inr (df, rep) \<longrightarrow>
      (error rep \<noteq> None \<longleftrightarrow>
         file_paths = [] \<or>
         (\<exists>fp0 fps d. file_paths = fp0 # fps \<and> rd fp0 = Inr d \<and> \<not> distinct (columns d)))
    \<and> (error rep \<noteq> None \<longrightarrow> df = empty_df))
   \<and> (file_paths = [] \<or>
       (keys = [] \<and> (\<exists>fp0 fps d. file_paths = fp0 # fps \<and> rd fp0 = Inr d \<and>
                        (\<forall>fp \<in> set fps. \<forall>d'. rd fp = Inr d' \<longrightarrow> distinct (columns d'))))
       \<longrightarrow> (\<exists>df rep. merge_and_report rd file_paths baseline incr keys = Inr (df, rep)))"
proof (intro conjI allI impI)
  fix df rep
  assume ret: "merge_and_report rd file_paths baseline incr keys = Inr (df, rep)"
  show "error rep \<noteq> None \<longleftrightarrow>
         file_paths = [] \<or>
         (\<exists>fp0 fps d. file_paths = fp0 # fps \<and> rd fp0 = Inr d \<and> \<not> distinct (columns d))"
  proof (cases file_paths)
    case Nil
    with ret show ?thesis by (auto simp: merge_and_report_def)
  next
    case (Cons fp0 fps)
    from merge_and_report_returns [OF ret [unfolded Cons]] show ?thesis
    proof
      assume "\<exists>cs. process_file rd keys incr 0 fp0 (initial_state rd (fp0 # fps) baseline incr) = Returned cs
            \<and> df = empty_df \<and> error rep = Some Baseline_duplicate_columns"
      then show ?thesis
        using Cons process_file_first_returned by fastforce
    next
      assume "\<exists>st1 st. process_file rd keys incr 0 fp0 (initial_state rd (fp0 # fps) baseline incr)
                      = Continue st1
            \<and> merge_loop rd keys incr 1 fps st1 = Continue st
            \<and> finish_merge keys (initial_report fp0) st = Inr (df, rep)"
      then obtain st1 st where
        p: "process_file rd keys incr 0 fp0 (initial_state rd (fp0 # fps) baseline incr) = Continue st1"
        and f: "finish_merge keys (initial_report fp0) st = Inr (df, rep)" by blast
      from finish_merge_report [OF f] have "error rep = None"
        by (simp add: initial_report_def)
      moreover from process_file_first [OF p]
      have "\<not> (\<exists>d. rd fp0 = Inr d \<and> \<not> distinct (columns d))" by auto
      ultimately show ?thesis using Cons by simp
    qed
  qed
  show "df = empty_df" if "error rep \<noteq> None"
  proof (cases file_paths)
    case Nil
    with ret show ?thesis by (auto simp: merge_and_report_def)
  next
    case (Cons fp0 fps)
    from merge_and_report_returns [OF ret [unfolded Cons]] that show ?thesis
      by (auto dest: finish_merge_report simp: initial_report_def)
  qed
next
  assume "file_paths = [] \<or>
       (keys = [] \<and> (\<exists>fp0 fps d. file_paths = fp0 # fps \<and> rd fp0 = Inr d \<and>
                        (\<forall>fp \<in> set fps. \<forall>d'. rd fp = Inr d' \<longrightarrow> distinct (columns d'))))"
  then show "\<exists>df rep. merge_and_report rd file_paths baseline incr keys = Inr (df, rep)"
  proof
    assume "file_paths = []"
    then show ?thesis by (simp add: merge_and_report_def)
  next
    assume "keys = [] \<and> (\<exists>fp0 fps d. file_paths = fp0 # fps \<and> rd fp0 = Inr d \<and>
                        (\<forall>fp \<in> set fps. \<forall>d'. rd fp = Inr d' \<longrightarrow> distinct (columns d')))"
    then show ?thesis using stack_merge_returns by blast
  qed
qed

theorem C2_fatal_errors_witness:
  "merge_and_report sample_reader [''dup.csv'', ''a.csv''] [] False []
   = Inr (empty_df,
          \<lparr>reference_file = ''dup.csv'', reference_columns = [''a'', ''a''], tables = [],
           merged_row_count = 0, fatal_mismatch_count = 0, merge_warning = None,
           error = Some Baseline_duplicate_columns\<rparr>)
   \<and> (\<exists>df rep. merge_and_report sample_reader [''a.csv'', ''bad.txt'', ''b.csv''] [] False []
                  = Inr (df, rep) \<and> error rep = None)"
proof -
  have ev: "merge_and_report sample_reader [''dup.csv'', ''a.csv''] [] False []
   = Inr (empty_df,
          \<lparr>reference_file = ''dup.csv'', reference_columns = [''a'', ''a''], tables = [],
           merged_row_count = 0, fatal_mismatch_count = 0, merge_warning = None,
           error = Some Baseline_duplicate_columns\<rparr>)"
    by code_simp
  have first: "sample_reader ''a.csv'' = Inr \<lparr>columns = [''a'', ''b''], rows = [[Some ''1'', Some ''x'']]\<rparr>"
    by (simp add: sample_reader_def)
  have later: "\<forall>fp \<in> set [''bad.txt'', ''b.csv'']. \<forall>d'. sample_reader fp = Inr d' \<longrightarrow> distinct (columns d')"
    by (auto simp: sample_reader_def)
  note inst = C2_fatal_errors [of sample_reader "[''a.csv'', ''bad.txt'', ''b.csv'']" "[]" False "[]"]
  from inst first later obtain df rep where
    r: "merge_and_report sample_reader [''a.csv'', ''bad.txt'', ''b.csv''] [] False [] = Inr (df, rep)"
    by auto
  with inst first have "error rep = None"
    by auto
  with r ev show ?thesis by blast
qed

text \<open>
  The claim as stated fails for a first file that cannot be read: alone, it yields an empty
  table and a report without a top-level error.
\<close>

theorem C2_as_stated_counterexample:
  "merge_and_report sample_reader [''bad.txt''] [] False []
   = Inr (empty_df,
          \<lparr>reference_file = ''bad.txt'', reference_columns = [],
           tables = [\<lparr>file_name = ''bad.txt'', row_count = 0, missing_columns = [], extra_columns = [],
                      status = Read_error, match_rate = None, entry_note = Error_text ''unsupported''\<rparr>],
           merged_row_count = 0, fatal_mismatch_count = 0, merge_warning = None, error = None\<rparr>)"
  by code_simp

text \<open>
  With no baseline given, a readable file after an unreadable first one meets
  \<^verbatim>\<open>set(cols_to_use)\<close> while \<^verbatim>\<open>cols_to_use\<close> is still \<open>None\<close>.
\<close>

lemma unreadable_first_file_raises:
  "merge_and_report sample_reader [''bad.txt'', ''a.csv''] [] False [] = Inl TypeError"
  by code_simp

subsection \<open>Row counts\<close>

lemma finish_merge_row_count:
  assumes "finish_merge keys report0 st = Inr (df, rep)"
  shows "merged_row_count rep = length (rows df)"
proof (cases "merged_dfs st")
  case Nil
  with assms show ?thesis
    by (auto simp: finish_merge_nothing_kept report_of_def empty_df_def)
next
  case (Cons first others)
  show ?thesis
  proof (cases "keys = [] \<or> filter (\<lambda>c. c \<in> set (columns first)) keys = []")
    case True
    from assms show ?thesis
      unfolding finish_merge_stack [OF Cons True]
      by (auto simp: report_of_def split: sum.splits)
  next
    case False
    then have k: "keys \<noteq> []" "filter (\<lambda>c. c \<in> set (columns first)) keys \<noteq> []" by auto
    from assms show ?thesis
      unfolding finish_merge_join [OF Cons k] Let_def
      by (auto simp: report_of_def split: sum.splits)
  qed
qed

text \<open>After the loop, the frames kept are, in order, those of the entries with status \<open>Ok\<close>.\<close>

lemma kept_frames_and_entries:
  assumes p: "process_file rd keys incr 0 fp0 st0 = Continue st1"
    and l: "merge_loop rd keys incr 1 fps st1 = Continue st"
    and e: "st_tables st0 = []" "merged_dfs st0 = []"
  shows "map (\<lambda>a. length (rows a)) (merged_dfs st)
         = map row_count (filter (\<lambda>e. status e = Ok) (st_tables st))"
proof -
  from merge_loop_later [OF l] obtain es frames where
    t: "st_tables st = st_tables st1 @ es" "merged_dfs st = merged_dfs st1 @ frames"
      "map (\<lambda>a. length (rows a)) frames = map row_count (filter (\<lambda>e. status e = Ok) es)"
    by auto
  from process_file_first [OF p] e
  have "map (\<lambda>a. length (rows a)) (merged_dfs st1)
        = map row_count (filter (\<lambda>e. status e = Ok) (st_tables st1))"
    by auto
  with t show ?thesis by simp
qed

lemma process_file_entry:
  assumes "process_file rd keys incr i fp st = Continue st'"
  shows "\<exists>e. st_tables st' = st_tables st @ [e] \<and> entry_describes rd fp e"
proof (cases "rd fp")
  case (Inl t)
  with assms show ?thesis
    by (auto simp: process_file_def new_entry_def entry_describes_def)
next
  case (Inr d0)
  from assms Inr obtain d where
    d: "(if keys \<noteq> [] then strip_primary_key_columns d0 keys else Inr d0) = Inr d"
    by (cases "if keys \<noteq> [] then strip_primary_key_columns d0 keys else Inr d0")
       (auto simp: process_file_def)
  then have shape: "length (rows d) = length (rows d0)"
    by (auto split: if_splits dest: strip_primary_key_columns_shape)
  have descr: "entry_describes rd fp e"
    if "file_name e = path_name fp" "status e \<noteq> Read_error" "row_count e = length (rows d)" for e
    using that Inr shape by (simp add: entry_describes_def)
  show ?thesis
  proof (cases "i = 0")
    case True
    let ?cols = "case cols_to_use st of None \<Rightarrow> columns d | Some cs \<Rightarrow> if cs = [] then columns d else cs"
    from assms Inr d True have dist: "distinct (columns d)"
      by (auto simp: process_file_def Let_def split: if_splits)
    from assms Inr d dist True obtain kept where
      kept: "(if keys \<noteq> [] \<and> incr then Inr d else reindex d ?cols) = Inr kept"
      by (cases "if keys \<noteq> [] \<and> incr then Inr d else reindex d ?cols")
         (auto simp: process_file_def Let_def)
    let ?e = "(new_entry fp)\<lparr>row_count := length (rows d),
                missing_columns := filter (\<lambda>c. c \<notin> set (columns d)) ?cols,
                extra_columns := filter (\<lambda>c. c \<notin> set ?cols) (columns d)\<rparr>"
    have "process_file rd keys incr 0 fp st =
        Continue (st\<lparr>cols_to_use := Some ?cols, st_reference_columns := ?cols,
                     merged_dfs := merged_dfs st @ [kept], st_tables := st_tables st @ [?e]\<rparr>)"
      unfolding process_file_def Inr sum.case d Let_def using dist kept by simp
    with assms True have "st_tables st' = st_tables st @ [?e]" by auto
    moreover have "entry_describes rd fp ?e"
      by (rule descr) (simp_all add: new_entry_def)
    ultimately show ?thesis by blast
  next
    case False
    with assms Inr d obtain cols where cols: "cols_to_use st = Some cols"
      by (cases "cols_to_use st") (auto simp: process_file_def Let_def)
    show ?thesis
    proof (cases "set (columns d) \<inter> set cols = {}")
      case True
      let ?e = "(new_entry fp)\<lparr>row_count := length (rows d), status := Fatal_mismatch,
                  missing_columns := cols, extra_columns := columns d,
                  entry_note := Skipped_no_common_column\<rparr>"
      from assms Inr d cols False True have "st_tables st' = st_tables st @ [?e]"
        by (auto simp: process_file_def Let_def)
      moreover have "entry_describes rd fp ?e"
        by (rule descr) (simp_all add: new_entry_def)
      ultimately show ?thesis by blast
    next
      case nonempty: False
      with assms Inr d cols False obtain a where a: "reindex d cols = Inr a"
        by (cases "reindex d cols") (auto simp: process_file_def Let_def)
      let ?e = "(new_entry fp)\<lparr>row_count := length (rows d),
                  missing_columns := filter (\<lambda>c. c \<notin> set (columns d)) cols,
                  extra_columns := filter (\<lambda>c. c \<notin> set cols) (columns d)\<rparr>"
      from assms Inr d cols False nonempty a have "st_tables st' = st_tables st @ [?e]"
        by (auto simp: process_file_def Let_def)
      moreover have "entry_describes rd fp ?e"
        by (rule descr) (simp_all add: new_entry_def)
      ultimately show ?thesis by blast
    qed
  qed
qed

lemma merge_loop_entries:
  assumes "merge_loop rd keys incr i fps st = Continue st'"
  shows "\<exists>es. st_tables st' = st_tables st @ es \<and> list_all2 (entry_describes rd) fps es"
  using assms
proof (induction fps arbitrary: i st)
  case Nil
  then show ?case by simp
next
  case (Cons fp fps)
  from Cons.prems obtain st1 where
    st1: "process_file rd keys incr i fp st = Continue st1"
    and rest: "merge_loop rd keys incr (Suc i) fps st1 = Continue st'"
    by (cases "process_file rd keys incr i fp st") auto
  from process_file_entry [OF st1] obtain e where
    e: "st_tables st1 = st_tables st @ [e]" "entry_describes rd fp e" by blast
  from Cons.IH [OF rest] obtain es where
    es: "st_tables st' = st_tables st1 @ es" "list_all2 (entry_describes rd) fps es" by blast
  from e es have "st_tables st' = st_tables st @ (e # es) \<and> list_all2 (entry_describes rd) (fp # fps) (e # es)"
    by simp
  then show ?case by blast
qed

lemma join_step_entries:
  "list_all2 (\<lambda>e e'. file_name e' = file_name e \<and> status e' = status e \<and> row_count e' = row_count e)
     (js_tables js) (js_tables (join_step first kcu idx right_df js))"
  by (auto simp: join_step_def Let_def list_all2_conv_all_nth nth_list_update)

lemma join_loop_entries:
  "list_all2 (\<lambda>e e'. file_name e' = file_name e \<and> status e' = status e \<and> row_count e' = row_count e)
     (js_tables js) (js_tables (join_loop first kcu idx rights js))"
proof (induction rights arbitrary: idx js)
  case Nil
  then show ?case by (simp add: list_all2_conv_all_nth)
next
  case (Cons right_df rest)
  from join_step_entries [of js first kcu idx right_df] Cons.IH [of "join_step first kcu idx right_df js" "Suc idx"]
  show ?case
    by (auto simp: list_all2_conv_all_nth)
qed

lemma finish_merge_entries:
  assumes "finish_merge keys report0 st = Inr (df, rep)"
  shows "list_all2 (\<lambda>e e'. file_name e' = file_name e \<and> status e' = status e \<and> row_count e' = row_count e)
           (st_tables st) (tables rep)"
proof (cases "merged_dfs st")
  case Nil
  with assms show ?thesis
    by (auto simp: finish_merge_nothing_kept report_of_def list_all2_conv_all_nth)
next
  case (Cons first others)
  show ?thesis
  proof (cases "keys = [] \<or> filter (\<lambda>c. c \<in> set (columns first)) keys = []")
    case True
    from assms show ?thesis
      unfolding finish_merge_stack [OF Cons True]
      by (auto simp: report_of_def list_all2_conv_all_nth split: sum.splits)
  next
    case False
    then have k: "keys \<noteq> []" "filter (\<lambda>c. c \<in> set (columns first)) keys \<noteq> []" by auto
    from assms have "tables rep = js_tables (join_loop first (filter (\<lambda>c. c \<in> set (columns first)) keys) 1 others
                 \<lparr>left_frame = first, js_tables = st_tables st, js_warning = merge_warning report0\<rparr>)"
      unfolding finish_merge_join [OF Cons k] Let_def
      by (auto split: sum.splits)
    with join_loop_entries [of "\<lparr>left_frame = first, js_tables = st_tables st, js_warning = merge_warning report0\<rparr>"]
    show ?thesis by simp
  qed
qed

lemma report_entries_describe_files:
  assumes "merge_and_report rd file_paths baseline incr keys = Inr (df, rep)" and "error rep = None"
  shows "list_all2 (entry_describes rd) file_paths (tables rep)"
proof -
  from assms obtain fp0 fps where paths: "file_paths = fp0 # fps"
    by (cases file_paths) (auto simp: merge_and_report_def)
  from assms obtain st where
    l: "merge_loop rd keys incr 0 file_paths (initial_state rd file_paths baseline incr) = Continue st"
    and f: "finish_merge keys (initial_report fp0) st = Inr (df, rep)"
    unfolding paths
    by (cases "merge_loop rd keys incr 0 (fp0 # fps) (initial_state rd (fp0 # fps) baseline incr)")
       (auto simp: merge_and_report_def)
  from merge_loop_entries [OF l] have a: "list_all2 (entry_describes rd) file_paths (st_tables st)"
    by (simp add: initial_state_empty)
  from finish_merge_entries [OF f] have b: "list_all2 (\<lambda>e e'. file_name e' = file_name e \<and> status e' = status e \<and> row_count e' = row_count e)
           (st_tables st) (tables rep)" .
  from a b show ?thesis
    by (auto simp: list_all2_conv_all_nth entry_describes_def split: sum.splits)
qed

text \<open>
  The row counts of every merge that returns without a top-level error. The
  \<^verbatim>\<open>merged_row_count\<close> of the report is the number of rows of the merged table, and the
  report has one entry for every file, in order, with the row count of the file if it can be
  read. Without primary-key columns the number of rows is the sum of the row counts of the
  entries with status \<open>Ok\<close>, the files kept. With primary-key columns and a readable first file, it is the row
  count of the first file if one of the key columns is a column of the first kept frame
  (the first file's own columns in an incremental merge, the baseline columns otherwise);
  if none is, the code stacks the files kept and the number is again the sum over them.
\<close>

lemma row_counts_by_strategy:
  assumes "merge_and_report rd file_paths baseline incr keys = Inr (df, rep)"
    and "error rep = None"
  shows "merged_row_count rep = length (rows df)
       \<and> list_all2 (entry_describes rd) file_paths (tables rep)
       \<and> (keys = [] \<longrightarrow>
            length (rows df) = sum_list (map row_count (filter (\<lambda>e. status e = Ok) (tables rep))))
       \<and> (keys \<noteq> [] \<longrightarrow>
            (\<forall>fp0 fps d0. file_paths = fp0 # fps \<and> rd fp0 = Inr d0 \<longrightarrow>
               (if \<exists>c \<in> set keys. c \<in> set (if incr then columns d0 else reference_columns rep)
                then length (rows df) = length (rows d0)
                else length (rows df)
                     = sum_list (map row_count (filter (\<lambda>e. status e = Ok) (tables rep))))))"
proof -
  from assms obtain fp0 fps where paths: "file_paths = fp0 # fps"
    by (cases file_paths) (auto simp: merge_and_report_def)
  let ?init = "initial_state rd (fp0 # fps) baseline incr"
  from merge_and_report_returns [OF assms(1) [unfolded paths]] assms(2) obtain st1 st where
    p: "process_file rd keys incr 0 fp0 ?init = Continue st1"
    and l: "merge_loop rd keys incr 1 fps st1 = Continue st"
    and f: "finish_merge keys (initial_report fp0) st = Inr (df, rep)"
    by auto
  note inv = kept_frames_and_entries [OF p l initial_state_empty [THEN conjunct1]
        initial_state_empty [THEN conjunct2]]
  note fr = finish_merge_rows [OF f]
  have sum_inv: "sum_list (map (\<lambda>a. length (rows a)) (merged_dfs st))
                 = sum_list (map row_count (filter (\<lambda>e. status e = Ok) (st_tables st)))"
    using inv by simp
  show ?thesis
  proof (intro conjI impI allI)
    show "merged_row_count rep = length (rows df)"
      by (rule finish_merge_row_count [OF f])
  next
    show "list_all2 (entry_describes rd) file_paths (tables rep)"
      by (rule report_entries_describe_files [OF assms])
  next
    assume k: "keys = []"
    show "length (rows df) = sum_list (map row_count (filter (\<lambda>e. status e = Ok) (tables rep)))"
    proof (cases "merged_dfs st")
      case Nil
      with fr inv show ?thesis by (simp add: empty_df_def)
    next
      case (Cons first others)
      with fr k sum_inv show ?thesis by simp
    qed
  next
    fix fp0' fps' d0
    assume k: "keys \<noteq> []" and "file_paths = fp0' # fps' \<and> rd fp0' = Inr d0"
    with paths have rd0: "rd fp0 = Inr d0" by simp
    from process_file_first [OF p] rd0 obtain kept where
      m1: "merged_dfs st1 = [kept]" and rk: "length (rows kept) = length (rows d0)"
      and ck: "columns kept = (if keys \<noteq> [] \<and> incr then columns d0 else st_reference_columns st1)"
      by (auto simp: initial_state_empty)
    from merge_loop_later [OF l] m1 obtain frames where
      m: "merged_dfs st = kept # frames" and r: "st_reference_columns st = st_reference_columns st1"
      by auto
    from finish_merge_report [OF f] r have "reference_columns rep = st_reference_columns st1"
      by simp
    with ck k have cols: "columns kept = (if incr then columns d0 else reference_columns rep)"
      by simp
    from fr m have "if keys \<noteq> [] \<and> (\<exists>c \<in> set keys. c \<in> set (columns kept))
             then length (rows df) = length (rows kept)
             else length (rows df) = sum_list (map (\<lambda>a. length (rows a)) (merged_dfs st))
                  \<and> tables rep = st_tables st"
      by simp
    with k rk sum_inv show "if \<exists>c \<in> set keys. c \<in> set (if incr then columns d0 else reference_columns rep)
                then length (rows df) = length (rows d0)
                else length (rows df)
                     = sum_list (map row_count (filter (\<lambda>e. status e = Ok) (tables rep)))"
      unfolding cols [symmetric] by (simp split: if_splits)
  qed
qed

lemma row_counts_by_strategy_example:
  "merge_and_report sample_reader [''k0.csv'', ''k1.csv''] [] True [''k'']
   = Inr (\<lparr>columns = [''k'', ''v'', ''w''],
           rows = [[Some ''a'', Some ''1'', Some ''9''], [Some ''b'', Some ''2'', None],
                   [Some ''c'', Some ''3'', None]]\<rparr>,
          \<lparr>reference_file = ''k0.csv'', reference_columns = [''k'', ''v'', ''w''],
           tables = [\<lparr>file_name = ''k0.csv'', row_count = 3, missing_columns = [''w''],
                      extra_columns = [], status = Ok, match_rate = None, entry_note = No_note\<rparr>,
                     \<lparr>file_name = ''k1.csv'', row_count = 2, missing_columns = [''v''],
                      extra_columns = [], status = Ok, match_rate = Some (binary64 (3333 / 10000)),
                      entry_note = No_note\<rparr>],
           merged_row_count = 3, fatal_mismatch_count = 0, merge_warning = Some Keys_unmatched,
           error = None\<rparr>)
   \<and> length (rows (fst (projr (merge_and_report sample_reader [''k0.csv'', ''k1.csv''] [] True [''k'']))))
     = length (rows \<lparr>columns = [''k'', ''v''],
                     rows = [[Some ''a'', Some ''1''], [Some ''b'', Some ''2''], [Some ''c'', Some ''3'']]\<rparr>)"
proof -
  let ?df = "\<lparr>columns = [''k'', ''v'', ''w''],
           rows = [[Some ''a'', Some ''1'', Some ''9''], [Some ''b'', Some ''2'', None],
                   [Some ''c'', Some ''3'', None]]\<rparr>"
  let ?rep = "\<lparr>reference_file = ''k0.csv'', reference_columns = [''k'', ''v'', ''w''],
           tables = [\<lparr>file_name = ''k0.csv'', row_count = 3, missing_columns = [''w''],
                      extra_columns = [], status = Ok, match_rate = None, entry_note = No_note\<rparr>,
                     \<lparr>file_name = ''k1.csv'', row_count = 2, missing_columns = [''v''],
                      extra_columns = [], status = Ok, match_rate = Some (binary64 (3333 / 10000)),
                      entry_note = No_note\<rparr>],
           merged_row_count = 3, fatal_mismatch_count = 0, merge_warning = Some Keys_unmatched,
           error = None\<rparr>"
  let ?d0 = "\<lparr>columns = [''k'', ''v''],
                     rows = [[Some ''a'', Some ''1''], [Some ''b'', Some ''2''], [Some ''c'', Some ''3'']]\<rparr>"
  have ev: "merge_and_report sample_reader [''k0.csv'', ''k1.csv''] [] True [''k''] = Inr (?df, ?rep)"
    by code_simp
  have e: "error ?rep = None" by simp
  have r0: "sample_reader ''k0.csv'' = Inr ?d0"
    by (simp add: sample_reader_def)
  from row_counts_by_strategy [OF ev e] r0
  have "length (rows ?df) = length (rows ?d0)"
    by simp
  with ev show ?thesis by simp
qed

text \<open>
  C3. The code at the failing input: primary-key columns are supplied, and the key \<open>k\<close> is
  not a column of the first file. The code does not join; it stacks the two files, and the
  merged table has three rows where the first file has one. The docstring of
  \<^verbatim>\<open>merge_and_report\<close> promises, for a non-empty \<^verbatim>\<open>primary_key_columns\<close>, a left join
  whose row count is that of the first table.
\<close>

theorem C3_key_fallback_rows:
  "sample_reader ''a.csv'' = Inr \<lparr>columns = [''a'', ''b''], rows = [[Some ''1'', Some ''x'']]\<rparr>
   \<and> merge_and_report sample_reader [''a.csv'', ''b.csv''] [] False [''k'']
   = Inr (\<lparr>columns = [''a'', ''b''],
           rows = [[Some ''1'', Some ''x''], [None, Some ''y''], [None, None]]\<rparr>,
          \<lparr>reference_file = ''a.csv'', reference_columns = [''a'', ''b''],
           tables = [\<lparr>file_name = ''a.csv'', row_count = 1, missing_columns = [], extra_columns = [],
                      status = Ok, match_rate = None, entry_note = No_note\<rparr>,
                     \<lparr>file_name = ''b.csv'', row_count = 2, missing_columns = [''a''],
                      extra_columns = [''c''], status = Ok, match_rate = None, entry_note = No_note\<rparr>],
           merged_row_count = 3, fatal_mismatch_count = 0, merge_warning = None, error = None\<rparr>)"
  by code_simp

subsection \<open>Column order\<close>

text \<open>
  C4. The code at the failing input: an incremental merge with a baseline that reorders
  the columns of the only file and with a primary key that is not a column of it. The
  first frame is kept with its own column order, the key join is skipped for lack of a key
  column, and the stack returns the columns \<open>a, b\<close> where the report has the baseline
  \<open>b, a\<close>, with no top-level error.
\<close>

theorem C4_key_fallback_columns:
  "merge_and_report sample_reader [''a.csv''] [''b'', ''a''] True [''k'']
   = Inr (\<lparr>columns = [''a'', ''b''], rows = [[Some ''1'', Some ''x'']]\<rparr>,
          \<lparr>reference_file = ''a.csv'', reference_columns = [''b'', ''a''],
           tables = [\<lparr>file_name = ''a.csv'', row_count = 1, missing_columns = [], extra_columns = [],
                      status = Ok, match_rate = None, entry_note = No_note\<rparr>],
           merged_row_count = 1, fatal_mismatch_count = 0, merge_warning = None, error = None\<rparr>)"
  by code_simp

text \<open>
  The same disagreement after a first file that cannot be read: the baseline given is the
  column sequence of the merged table, the \<^verbatim>\<open>reference_columns\<close> of the report stay empty.
\<close>

lemma unreadable_first_file_columns:
  "merge_and_report sample_reader [''bad.txt'', ''a.csv''] [''a''] False []
   = Inr (\<lparr>columns = [''a''], rows = [[Some ''1'']]\<rparr>,
          \<lparr>reference_file = ''bad.txt'', reference_columns = [],
           tables = [\<lparr>file_name = ''bad.txt'', row_count = 0, missing_columns = [], extra_columns = [],
                      status = Read_error, match_rate = None, entry_note = Error_text ''unsupported''\<rparr>,
                     \<lparr>file_name = ''a.csv'', row_count = 1, missing_columns = [], extra_columns = [''b''],
                      status = Ok, match_rate = None, entry_note = No_note\<rparr>],
           merged_row_count = 1, fatal_mismatch_count = 0, merge_warning = None, error = None\<rparr>)"
  by code_simp

subsection \<open>Match rates\<close>

lemma matched_keys_card:
  "matched_keys first right_df on
   = card ({k \<in> set (key_tuples first on). None \<notin> set k} \<inter> set (key_tuples right_df on))"
proof -
  have "set (filter (\<lambda>k. None \<notin> set k \<and> k \<in> set (key_tuples right_df on)) (key_tuples first on))
        = {k \<in> set (key_tuples first on). None \<notin> set k} \<inter> set (key_tuples right_df on)"
    by auto
  then show ?thesis
    unfolding matched_keys_def by (metis length_remdups_card_conv)
qed

text \<open>
  One matched key of 160 rows: the float nearest to \<open>1/160\<close> lies above it, and the rate
  recorded is the float \<open>0.0063\<close>.
\<close>

lemma round4_of_float_quotient:
  "1 / 160 < binary64 (1 / 160) \<and> round4 (binary64 (1 / 160)) = binary64 (63 / 10000)"
  by code_simp

text \<open>
  A key column that no file has: the baseline brings it into both frames, filled with NaN.
  The join pairs the rows, but no key of the first frame is matched; the rate is 0 and the
  warning is set.
\<close>

lemma nan_keys_match_nothing:
  "merge_and_report sample_reader [''a.csv'', ''a.csv''] [''a'', ''k''] False [''k'']
   = Inr (\<lparr>columns = [''a'', ''k''], rows = [[Some ''1'', None]]\<rparr>,
          \<lparr>reference_file = ''a.csv'', reference_columns = [''a'', ''k''],
           tables = [\<lparr>file_name = ''a.csv'', row_count = 1, missing_columns = [''k''],
                      extra_columns = [''b''], status = Ok, match_rate = None, entry_note = No_note\<rparr>,
                     \<lparr>file_name = ''a.csv'', row_count = 1, missing_columns = [''k''],
                      extra_columns = [''b''], status = Ok, match_rate = Some 0, entry_note = No_note\<rparr>],
           merged_row_count = 1, fatal_mismatch_count = 0, merge_warning = Some Keys_unmatched,
           error = None\<rparr>)"
  by code_simp

lemma join_step_keyed:
  assumes "kcu \<noteq> []" and "set kcu \<subseteq> set (columns (left_frame js))"
    and "set kcu \<subseteq> set (columns right_df)" and "\<forall>c \<in> set kcu. \<not> endswith c ''_dup''"
  shows "js_tables (join_step first kcu idx right_df js)
         = (if idx < length (js_tables js)
            then (js_tables js)[idx := (js_tables js ! idx)
                   \<lparr>match_rate := Some (round4 (key_match_rate first right_df kcu))\<rparr>]
            else js_tables js)"
    and "js_warning (join_step first kcu idx right_df js)
         = (if key_match_rate first right_df kcu < MATCH_RATE_WARN_THRESHOLD \<and> js_warning js = None
            then Some Keys_unmatched else js_warning js)"
    and "set kcu \<subseteq> set (columns (left_frame (join_step first kcu idx right_df js)))"
proof -
  have on: "filter (\<lambda>c. c \<in> set (columns (left_frame js)) \<and> c \<in> set (columns right_df)) kcu = kcu"
    using assms(2,3) by (intro filter_True) auto
  show "js_tables (join_step first kcu idx right_df js)
         = (if idx < length (js_tables js)
            then (js_tables js)[idx := (js_tables js ! idx)
                   \<lparr>match_rate := Some (round4 (key_match_rate first right_df kcu))\<rparr>]
            else js_tables js)"
    using assms(1) by (simp add: join_step_def on Let_def)
  show "js_warning (join_step first kcu idx right_df js)
         = (if key_match_rate first right_df kcu < MATCH_RATE_WARN_THRESHOLD \<and> js_warning js = None
            then Some Keys_unmatched else js_warning js)"
    using assms(1) by (simp add: join_step_def on Let_def)
  show "set kcu \<subseteq> set (columns (left_frame (join_step first kcu idx right_df js)))"
    using assms by (auto simp: join_step_def on Let_def drop_columns_def left_merge_def)
qed

lemma join_loop_keyed:
  assumes "kcu \<noteq> []" and "set kcu \<subseteq> set (columns (left_frame js))"
    and "\<forall>d \<in> set rights. set kcu \<subseteq> set (columns d)"
    and "\<forall>c \<in> set kcu. \<not> endswith c ''_dup''"
    and "idx + length rights \<le> length (js_tables js)"
  shows "length (js_tables (join_loop first kcu idx rights js)) = length (js_tables js)
       \<and> (\<forall>j < length (js_tables js).
            js_tables (join_loop first kcu idx rights js) ! j
            = (if idx \<le> j \<and> j < idx + length rights
               then (js_tables js ! j)
                      \<lparr>match_rate := Some (round4 (key_match_rate first (rights ! (j - idx)) kcu))\<rparr>
               else js_tables js ! j))
       \<and> (js_warning (join_loop first kcu idx rights js) \<noteq> None \<longleftrightarrow>
            js_warning js \<noteq> None \<or> (\<exists>k < length rights. key_match_rate first (rights ! k) kcu < MATCH_RATE_WARN_THRESHOLD))"
  using assms
proof (induction rights arbitrary: idx js)
  case Nil
  then show ?case by auto
next
  case (Cons right_df rest)
  let ?js1 = "join_step first kcu idx right_df js"
  have r: "set kcu \<subseteq> set (columns right_df)" using Cons.prems(3) by simp
  note s = join_step_keyed [OF Cons.prems(1,2) r Cons.prems(4), of first idx]
  have idx: "idx < length (js_tables js)" using Cons.prems(5) by simp
  have len1: "length (js_tables ?js1) = length (js_tables js)"
    using s(1) idx by simp
  have ih: "length (js_tables (join_loop first kcu (Suc idx) rest ?js1)) = length (js_tables ?js1)
       \<and> (\<forall>j < length (js_tables ?js1).
            js_tables (join_loop first kcu (Suc idx) rest ?js1) ! j
            = (if Suc idx \<le> j \<and> j < Suc idx + length rest
               then (js_tables ?js1 ! j)
                      \<lparr>match_rate := Some (round4 (key_match_rate first (rest ! (j - Suc idx)) kcu))\<rparr>
               else js_tables ?js1 ! j))
       \<and> (js_warning (join_loop first kcu (Suc idx) rest ?js1) \<noteq> None \<longleftrightarrow>
            js_warning ?js1 \<noteq> None \<or> (\<exists>k < length rest. key_match_rate first (rest ! k) kcu < MATCH_RATE_WARN_THRESHOLD))"
    using Cons.prems(3,5) len1
    by (intro Cons.IH [OF Cons.prems(1) s(3) _ Cons.prems(4)]) auto
  show ?case
  proof (intro conjI allI impI)
    show "length (js_tables (join_loop first kcu idx (right_df # rest) js)) = length (js_tables js)"
      using ih len1 by simp
  next
    fix j assume j: "j < length (js_tables js)"
    show "js_tables (join_loop first kcu idx (right_df # rest) js) ! j
          = (if idx \<le> j \<and> j < idx + length (right_df # rest)
             then (js_tables js ! j)
                    \<lparr>match_rate := Some (round4 (key_match_rate first ((right_df # rest) ! (j - idx)) kcu))\<rparr>
             else js_tables js ! j)"
    proof (cases "j = idx")
      case True
      with ih j len1 s(1) idx show ?thesis by simp
    next
      case False
      then have "js_tables ?js1 ! j = js_tables js ! j"
        using s(1) idx by simp
      moreover have "(right_df # rest) ! (j - idx) = rest ! (j - Suc idx)" if "idx < j"
      proof -
        from that have "j - idx = Suc (j - Suc idx)" by simp
        then show ?thesis by simp
      qed
      ultimately show ?thesis
        using ih j len1 False by auto
    qed
  next
    have "(\<exists>k < length (right_df # rest). key_match_rate first ((right_df # rest) ! k) kcu < MATCH_RATE_WARN_THRESHOLD)
          \<longleftrightarrow> key_match_rate first right_df kcu < MATCH_RATE_WARN_THRESHOLD
              \<or> (\<exists>k < length rest. key_match_rate first (rest ! k) kcu < MATCH_RATE_WARN_THRESHOLD)"
      by (auto simp: less_Suc_eq_0_disj)
    then show "js_warning (join_loop first kcu idx (right_df # rest) js) \<noteq> None \<longleftrightarrow>
            js_warning js \<noteq> None
            \<or> (\<exists>k < length (right_df # rest). key_match_rate first ((right_df # rest) ! k) kcu < MATCH_RATE_WARN_THRESHOLD)"
      using ih s(2) by auto
  qed
qed

lemma map_update_same:
  "idx < length xs \<Longrightarrow> f y = f (xs ! idx) \<Longrightarrow> map f (xs[idx := y]) = map f xs"
  by (metis list_update_id map_update)

lemma join_step_status:
  "map status (js_tables (join_step first kcu idx right_df js)) = map status (js_tables js)"
  by (simp add: join_step_def Let_def map_update_same)

lemma join_loop_status:
  "map status (js_tables (join_loop first kcu idx rights js)) = map status (js_tables js)"
  by (induction rights arbitrary: idx js) (simp_all add: join_step_status)

lemma incremental_columns_superset:
  assumes "rd fp = Inr d" and "fp \<in> set file_paths"
  shows "set (columns d) \<subseteq> set (incremental_columns rd file_paths given)"
proof -
  have "set (columns d) \<subseteq> set (all_columns rd file_paths)"
    using assms by (force simp: all_columns_def)
  then show ?thesis
    by (auto simp: incremental_columns_def Let_def)
qed

text \<open>
  The rates where no file is skipped. Take a key-joined merge that returns and in which every file was kept
  (all entries have status \<open>Ok\<close>), so that the entry at position \<open>idx\<close> belongs to the
  frame joined at step \<open>idx\<close>; \<open>st\<close> is the state after the loop over the files, whose
  \<open>merged_dfs\<close> are the kept frames with their key columns stripped. Let the key columns
  in use, those that are columns of the first kept frame, be non-empty and let none of
  their names end in \<^verbatim>\<open>_dup\<close>. Then for every later file the match rate recorded on its
  entry is \<open>round(rate, 4)\<close>, where \<open>rate\<close> is the number of distinct key tuples of the
  first frame that occur in the joined frame, divided by the row count of the first frame,
  and 1 if the first frame has no rows; and the merge warning is set if and only if at
  least one of these rates, unrounded, is below the threshold.
\<close>

lemma match_rates_when_all_kept:
  assumes "merge_and_report rd file_paths baseline incr keys = Inr (df, rep)"
    and "merge_loop rd keys incr 0 file_paths (initial_state rd file_paths baseline incr) = Continue st"
    and "\<forall>e \<in> set (tables rep). status e = Ok"
    and "merged_dfs st = first # others"
    and "key_cols_use = filter (\<lambda>c. c \<in> set (columns first)) keys"
    and "key_cols_use \<noteq> []"
    and "\<forall>c \<in> set key_cols_use. \<not> endswith c ''_dup''"
  shows "length (merged_dfs st) = length file_paths \<and> length (tables rep) = length file_paths
       \<and> (\<forall>idx. 1 \<le> idx \<and> idx < length file_paths \<longrightarrow>
            match_rate (tables rep ! idx)
            = Some (round4 (key_match_rate first (merged_dfs st ! idx) key_cols_use)))
       \<and> (merge_warning rep \<noteq> None \<longleftrightarrow>
            (\<exists>idx. 1 \<le> idx \<and> idx < length file_paths \<and>
                   key_match_rate first (merged_dfs st ! idx) key_cols_use < MATCH_RATE_WARN_THRESHOLD))"
proof -
  let ?kcu = "filter (\<lambda>c. c \<in> set (columns first)) keys"
  from assms(2,4) obtain fp0 fps where paths: "file_paths = fp0 # fps"
    by (cases file_paths) (auto simp: initial_state_empty)
  let ?init = "initial_state rd (fp0 # fps) baseline incr"
  from assms(2) obtain st1 where
    p: "process_file rd keys incr 0 fp0 ?init = Continue st1"
    and l: "merge_loop rd keys incr 1 fps st1 = Continue st"
    unfolding paths by (cases "process_file rd keys incr 0 fp0 ?init") auto
  from assms(1,2) have f: "finish_merge keys (initial_report fp0) st = Inr (df, rep)"
    by (simp add: merge_and_report_def paths)
  from assms(5,6) have k: "keys \<noteq> []" "?kcu \<noteq> []" by auto
  let ?start = "\<lparr>left_frame = first, js_tables = st_tables st,
                js_warning = merge_warning (initial_report fp0)\<rparr>"
  let ?js = "join_loop first ?kcu 1 others ?start"
  from f have rep: "tables rep = js_tables ?js" "merge_warning rep = js_warning ?js"
    unfolding finish_merge_join [OF assms(4) k] Let_def
    by (auto split: sum.splits)
  \<comment> \<open>every entry is \<open>Ok\<close>, so every file was kept\<close>
  have "map status (tables rep) = map status (st_tables st)"
    by (simp add: rep join_loop_status)
  with assms(3) have allok: "\<forall>e \<in> set (st_tables st). status e = Ok"
    by (metis (no_types, lifting) image_iff image_set)
  note inv = kept_frames_and_entries [OF p l initial_state_empty [THEN conjunct1]
        initial_state_empty [THEN conjunct2]]
  from allok have "filter (\<lambda>e. status e = Ok) (st_tables st) = st_tables st"
    by (simp add: filter_True)
  with inv have "length (merged_dfs st) = length (st_tables st)"
    by (metis length_map)
  moreover from merge_loop_later [OF l] process_file_first [OF p]
  have lt: "length (st_tables st) = Suc (length fps)"
    by (auto simp: initial_state_empty)
  ultimately have lens: "length (merged_dfs st) = length file_paths"
    "length (st_tables st) = length file_paths"
    by (simp_all add: paths)
  \<comment> \<open>the key columns are columns of every kept frame\<close>
  from process_file_first [OF p] allok merge_loop_later [OF l] obtain d0 cols kept where
    rd0: "rd fp0 = Inr d0"
    and cols: "cols = (case cols_to_use ?init of None \<Rightarrow> columns d0
                       | Some cs \<Rightarrow> if cs = [] then columns d0 else cs)"
    and c1: "cols_to_use st1 = Some cols"
    and m1: "merged_dfs st1 = [kept]"
    and ck: "columns kept = (if keys \<noteq> [] \<and> incr then columns d0 else cols)"
    by (auto simp: initial_state_empty)
  from merge_loop_later [OF l] m1 c1 assms(4) have
    first: "first = kept" and oth: "\<forall>a \<in> set others. columns a = cols"
    by auto
  have "set (columns d0) \<subseteq> set cols" if "incr"
  proof (cases "incremental_columns rd (fp0 # fps)
                  (if baseline \<noteq> [] then Some baseline else None) = []")
    case True
    with that cols show ?thesis by (simp add: initial_state_def Let_def)
  next
    case False
    with that cols have "cols = incremental_columns rd (fp0 # fps)
                  (if baseline \<noteq> [] then Some baseline else None)"
      by (simp add: initial_state_def Let_def)
    with incremental_columns_superset [of rd fp0 d0 "fp0 # fps", OF rd0] show ?thesis by simp
  qed
  with ck first have "set (columns first) \<subseteq> set cols"
    by (auto split: if_splits)
  then have sub: "\<forall>d \<in> set others. set ?kcu \<subseteq> set (columns d)"
    using oth by auto
  have left: "set ?kcu \<subseteq> set (columns (left_frame ?start))"
    by auto
  have bound: "1 + length others \<le> length (js_tables ?start)"
    using lens assms(4) by simp
  from assms(5,7) have nodup: "\<forall>c \<in> set ?kcu. \<not> endswith c ''_dup''" by simp
  note jl = join_loop_keyed [OF k(2) left sub nodup bound, of first]
  show ?thesis
  proof (intro conjI allI impI)
    show "length (merged_dfs st) = length file_paths" by (rule lens)
    show "length (tables rep) = length file_paths"
      using jl lens by (simp add: rep)
  next
    fix idx assume i: "1 \<le> idx \<and> idx < length file_paths"
    then have "merged_dfs st ! idx = others ! (idx - 1)"
      using assms(4) by (cases idx) auto
    with jl i lens assms(4,5) show "match_rate (tables rep ! idx)
            = Some (round4 (key_match_rate first (merged_dfs st ! idx) key_cols_use))"
      by (simp add: rep)
  next
    have "(\<exists>idx. 1 \<le> idx \<and> idx < length file_paths \<and>
                   key_match_rate first (merged_dfs st ! idx) key_cols_use < MATCH_RATE_WARN_THRESHOLD)
          \<longleftrightarrow> (\<exists>k < length others. key_match_rate first (others ! k) ?kcu < MATCH_RATE_WARN_THRESHOLD)"
    proof
      assume "\<exists>idx. 1 \<le> idx \<and> idx < length file_paths \<and>
                   key_match_rate first (merged_dfs st ! idx) key_cols_use < MATCH_RATE_WARN_THRESHOLD"
      then obtain idx where "1 \<le> idx" "idx < length file_paths"
        "key_match_rate first (merged_dfs st ! idx) key_cols_use < MATCH_RATE_WARN_THRESHOLD" by blast
      then have "idx - 1 < length others \<and> key_match_rate first (others ! (idx - 1)) ?kcu < MATCH_RATE_WARN_THRESHOLD"
        using assms(4,5) lens by (cases idx) auto
      then show "\<exists>k < length others. key_match_rate first (others ! k) ?kcu < MATCH_RATE_WARN_THRESHOLD" by blast
    next
      assume "\<exists>k < length others. key_match_rate first (others ! k) ?kcu < MATCH_RATE_WARN_THRESHOLD"
      then obtain k where "k < length others" "key_match_rate first (others ! k) ?kcu < MATCH_RATE_WARN_THRESHOLD"
        by blast
      then have "1 \<le> Suc k \<and> Suc k < length file_paths \<and>
                   key_match_rate first (merged_dfs st ! Suc k) key_cols_use < MATCH_RATE_WARN_THRESHOLD"
        using assms(4,5) lens by auto
      then show "\<exists>idx. 1 \<le> idx \<and> idx < length file_paths \<and>
                   key_match_rate first (merged_dfs st ! idx) key_cols_use < MATCH_RATE_WARN_THRESHOLD" by blast
    qed
    with jl show "merge_warning rep \<noteq> None \<longleftrightarrow>
            (\<exists>idx. 1 \<le> idx \<and> idx < length file_paths \<and>
                   key_match_rate first (merged_dfs st ! idx) key_cols_use < MATCH_RATE_WARN_THRESHOLD)"
      by (simp add: rep initial_report_def)
  qed
qed

lemma match_rates_when_all_kept_example:
  "match_rate
     (tables \<lparr>reference_file = ''k0.csv'', reference_columns = [''k'', ''v''],
           tables = [\<lparr>file_name = ''k0.csv'', row_count = 3, missing_columns = [], extra_columns = [],
                      status = Ok, match_rate = None, entry_note = No_note\<rparr>,
                     \<lparr>file_name = ''k1.csv'', row_count = 2, missing_columns = [''v''],
                      extra_columns = [''w''], status = Ok, match_rate = Some (binary64 (3333 / 10000)),
                      entry_note = No_note\<rparr>],
           merged_row_count = 3, fatal_mismatch_count = 0, merge_warning = Some Keys_unmatched,
           error = None\<rparr> ! 1)
   = Some (round4 (key_match_rate
        \<lparr>columns = [''k'', ''v''],
         rows = [[Some ''a'', Some ''1''], [Some ''b'', Some ''2''], [Some ''c'', Some ''3'']]\<rparr>
        \<lparr>columns = [''k'', ''v''], rows = [[Some ''a'', None], [Some ''a'', None]]\<rparr> [''k'']))
   \<and> key_match_rate
        \<lparr>columns = [''k'', ''v''],
         rows = [[Some ''a'', Some ''1''], [Some ''b'', Some ''2''], [Some ''c'', Some ''3'']]\<rparr>
        \<lparr>columns = [''k'', ''v''], rows = [[Some ''a'', None], [Some ''a'', None]]\<rparr> [''k''] = binary64 (1 / 3)"
proof -
  let ?first = "\<lparr>columns = [''k'', ''v''],
         rows = [[Some ''a'', Some ''1''], [Some ''b'', Some ''2''], [Some ''c'', Some ''3'']]\<rparr>"
  let ?second = "\<lparr>columns = [''k'', ''v''], rows = [[Some ''a'', None], [Some ''a'', None]]\<rparr>"
  let ?entries = "[\<lparr>file_name = ''k0.csv'', row_count = 3, missing_columns = [], extra_columns = [],
                      status = Ok, match_rate = None, entry_note = No_note\<rparr>,
                   \<lparr>file_name = ''k1.csv'', row_count = 2, missing_columns = [''v''],
                      extra_columns = [''w''], status = Ok, match_rate = None, entry_note = No_note\<rparr>]"
  let ?state = "\<lparr>st_tables = ?entries, merged_dfs = [?first, ?second], fatal_count = 0,
                 cols_to_use = Some [''k'', ''v''], st_reference_columns = [''k'', ''v'']\<rparr>"
  let ?rep = "\<lparr>reference_file = ''k0.csv'', reference_columns = [''k'', ''v''],
           tables = [\<lparr>file_name = ''k0.csv'', row_count = 3, missing_columns = [], extra_columns = [],
                      status = Ok, match_rate = None, entry_note = No_note\<rparr>,
                     \<lparr>file_name = ''k1.csv'', row_count = 2, missing_columns = [''v''],
                      extra_columns = [''w''], status = Ok, match_rate = Some (binary64 (3333 / 10000)),
                      entry_note = No_note\<rparr>],
           merged_row_count = 3, fatal_mismatch_count = 0, merge_warning = Some Keys_unmatched,
           error = None\<rparr>"
  have ret: "merge_and_report sample_reader [''k0.csv'', ''k1.csv''] [] False [''k''] = Inr (?first, ?rep)"
    by code_simp
  have loop: "merge_loop sample_reader [''k''] False 0 [''k0.csv'', ''k1.csv'']
                (initial_state sample_reader [''k0.csv'', ''k1.csv''] [] False) = Continue ?state"
    by code_simp
  have ok: "\<forall>e \<in> set (tables ?rep). status e = Ok"
    by simp
  have kept: "merged_dfs ?state = ?first # [?second]"
    by simp
  have kcu: "[''k''] = filter (\<lambda>c. c \<in> set (columns ?first)) [''k'']"
    by simp
  have ne: "[''k''] \<noteq> ([] :: string list)"
    by simp
  have nodup: "\<forall>c \<in> set [''k'']. \<not> endswith c ''_dup''"
    by (simp add: endswith_def)
  have idx: "1 \<le> (1::nat) \<and> (1::nat) < length [''k0.csv'', ''k1.csv'']"
    by simp
  have nth: "merged_dfs ?state ! 1 = ?second"
    by simp
  from match_rates_when_all_kept [OF ret loop ok kept kcu ne nodup] idx
  have "match_rate (tables ?rep ! 1)
        = Some (round4 (key_match_rate ?first (merged_dfs ?state ! 1) [''k'']))"
    by blast
  then have a: "match_rate (tables ?rep ! 1) = Some (round4 (key_match_rate ?first ?second [''k'']))"
    by (simp only: nth)
  have b: "key_match_rate ?first ?second [''k''] = binary64 (1 / 3)"
    by code_simp
  from a b show ?thesis by (rule conjI)
qed

text \<open>
  Three keys in the first file, one of them in the second: the entry records the float
  \<open>0.3333\<close>, the rounding of the float nearest to one third.
\<close>

lemma recorded_rate_is_rounded:
  "merge_and_report sample_reader [''k0.csv'', ''k1.csv''] [] False [''k'']
   = Inr (\<lparr>columns = [''k'', ''v''],
           rows = [[Some ''a'', Some ''1''], [Some ''b'', Some ''2''], [Some ''c'', Some ''3'']]\<rparr>,
          \<lparr>reference_file = ''k0.csv'', reference_columns = [''k'', ''v''],
           tables = [\<lparr>file_name = ''k0.csv'', row_count = 3, missing_columns = [], extra_columns = [],
                      status = Ok, match_rate = None, entry_note = No_note\<rparr>,
                     \<lparr>file_name = ''k1.csv'', row_count = 2, missing_columns = [''v''],
                      extra_columns = [''w''], status = Ok, match_rate = Some (binary64 (3333 / 10000)),
                      entry_note = No_note\<rparr>],
           merged_row_count = 3, fatal_mismatch_count = 0, merge_warning = Some Keys_unmatched,
           error = None\<rparr>)
   \<and> matched_keys \<lparr>columns = [''k'', ''v''],
           rows = [[Some ''a'', Some ''1''], [Some ''b'', Some ''2''], [Some ''c'', Some ''3'']]\<rparr>
         \<lparr>columns = [''k'', ''v''], rows = [[Some ''a'', None], [Some ''a'', None]]\<rparr> [''k''] = 1"
  by code_simp

text \<open>
  C5. The code at the failing input: a key-joined merge of three files, of which the second
  has no column in common with the first and is skipped. The third file is the frame at
  position 1 of the frames kept, and the rate of its join, one key of three, is written to
  the entry at position 1 of the report, which is the entry of the skipped file; the entry
  of the joined file records no rate.
\<close>

theorem C5_rate_on_skipped_entry:
  "merge_and_report sample_reader [''k0.csv'', ''z.csv'', ''k1.csv''] [] False [''k'']
   = Inr (\<lparr>columns = [''k'', ''v''],
           rows = [[Some ''a'', Some ''1''], [Some ''b'', Some ''2''], [Some ''c'', Some ''3'']]\<rparr>,
          \<lparr>reference_file = ''k0.csv'', reference_columns = [''k'', ''v''],
           tables = [\<lparr>file_name = ''k0.csv'', row_count = 3, missing_columns = [], extra_columns = [],
                      status = Ok, match_rate = None, entry_note = No_note\<rparr>,
                     \<lparr>file_name = ''z.csv'', row_count = 1, missing_columns = [''k'', ''v''],
                      extra_columns = [''p'', ''q''], status = Fatal_mismatch,
                      match_rate = Some (binary64 (3333 / 10000)),
                      entry_note = Skipped_no_common_column\<rparr>,
                     \<lparr>file_name = ''k1.csv'', row_count = 2, missing_columns = [''v''],
                      extra_columns = [''w''], status = Ok, match_rate = None, entry_note = No_note\<rparr>],
           merged_row_count = 3, fatal_mismatch_count = 1, merge_warning = Some Keys_unmatched,
           error = None\<rparr>)"
  by code_simp

subsection \<open>Row attribution after a skipped file\<close>

text \<open>
  The entry of a file skipped as a fatal mismatch keeps the row count of the file, while
  its rows are not in the merged table. Here row 1 of the merged table is the first row of
  \<^verbatim>\<open>b.csv\<close>, and the walk over the cumulative row counts selects the entry of \<^verbatim>\<open>z.csv\<close>.
\<close>

lemma fatal_mismatch_shifts_attribution:
  "merge_and_report sample_reader [''a.csv'', ''z.csv'', ''b.csv''] [] False []
   = Inr (\<lparr>columns = [''a'', ''b''],
           rows = [[Some ''1'', Some ''x''], [None, Some ''y''], [None, None]]\<rparr>,
          \<lparr>reference_file = ''a.csv'', reference_columns = [''a'', ''b''],
           tables = [\<lparr>file_name = ''a.csv'', row_count = 1, missing_columns = [], extra_columns = [],
                      status = Ok, match_rate = None, entry_note = No_note\<rparr>,
                     \<lparr>file_name = ''z.csv'', row_count = 1, missing_columns = [''a'', ''b''],
                      extra_columns = [''p'', ''q''], status = Fatal_mismatch, match_rate = None,
                      entry_note = Skipped_no_common_column\<rparr>,
                     \<lparr>file_name = ''b.csv'', row_count = 2, missing_columns = [''a''],
                      extra_columns = [''c''], status = Ok, match_rate = None, entry_note = No_note\<rparr>],
           merged_row_count = 3, fatal_mismatch_count = 1, merge_warning = None, error = None\<rparr>)
   \<and> row_index_to_file_index 1
         (snd (projr (merge_and_report sample_reader [''a.csv'', ''z.csv'', ''b.csv''] [] False []))) = 1"
  by code_simp

end
